theory Spec2Isabelle
  imports Main "HOL-Library.Word" "HOL-Library.Multiset" "HOL-Library.Code_Target_Nat"
begin

section \<open>The store: tables, constraints, policies and triggers of the migration\<close>

text \<open>
  The persistent state is the four tables of
  \<^verbatim>\<open>supabase/migrations/20251024193900_....sql\<close>. A \<^verbatim>\<open>UUID\<close> is an opaque key
  and a \<^verbatim>\<open>TIMESTAMP\<close> a point on a discrete clock; both are natural numbers here.
  Every statement is given the acting user, \<^verbatim>\<open>auth.uid()\<close>, and the time \<^verbatim>\<open>now()\<close>;
  the client's \<^verbatim>\<open>new Date()\<close> reads the same clock, in milliseconds.
  Message text is typed into a JavaScript string, so it is a list of UTF-16 code units.
  Every table is a list of rows in insertion order.
\<close>

type_synonym uuid = nat
type_synonym timestamp = nat
type_synonym js_string = "16 word list"

text \<open>\<^verbatim>\<open>status TEXT ... CHECK (status IN ('pending', 'accepted', 'rejected'))\<close>\<close>

datatype req_status = Pending | Accepted | Rejected

record profile =
  p_id :: uuid
  p_email :: string
  p_status :: string
  p_last_seen :: timestamp
  p_updated_at :: timestamp

record friend_request =
  fr_id :: uuid
  fr_sender_id :: uuid
  fr_receiver_id :: uuid
  fr_status :: req_status
  fr_created_at :: timestamp
  fr_updated_at :: timestamp

record friendship =
  f_id :: uuid
  f_user_id :: uuid
  f_friend_id :: uuid
  f_created_at :: timestamp

record message =
  m_id :: uuid
  m_sender_id :: uuid
  m_receiver_id :: uuid
  m_content :: js_string
  m_read :: bool
  m_created_at :: timestamp

record db =
  profiles :: "profile list"
  friend_requests :: "friend_request list"
  friendships :: "friendship list"
  messages :: "message list"

text \<open>
  \<^verbatim>\<open>DEFAULT gen_random_uuid()\<close>: the key of a new row is one that no row of the table
  carries yet.
\<close>

definition gen_random_uuid :: "uuid list \<Rightarrow> uuid" where
  "gen_random_uuid used = Suc (fold max used 0)"

text \<open>
  The errors a statement can end with, and the SQLSTATE the client reads in
  \<^verbatim>\<open>error.code\<close>: a \<^verbatim>\<open>UNIQUE\<close> constraint, a \<^verbatim>\<open>REFERENCES\<close> constraint, a
  row-level-security \<^verbatim>\<open>WITH CHECK\<close>, and the two ways in which a string of the
  request body fails to become a \<^verbatim>\<open>TEXT\<close> value.
\<close>

datatype pg_error =
    Unique_violation
  | Foreign_key_violation
  | Insufficient_privilege
  | Untranslatable_character
  | Invalid_text_representation

fun code :: "pg_error \<Rightarrow> string" where
  "code Unique_violation = ''23505''"
| "code Foreign_key_violation = ''23503''"
| "code Insufficient_privilege = ''42501''"
| "code Untranslatable_character = ''22P05''"
| "code Invalid_text_representation = ''22P02''"

subsection \<open>Row-level security\<close>

text \<open>Each policy is a predicate of \<^verbatim>\<open>auth.uid()\<close> and the row.\<close>

definition policy_profiles_update :: "uuid \<Rightarrow> profile \<Rightarrow> bool" where
  "policy_profiles_update uid p \<longleftrightarrow> uid = p_id p"

definition policy_friend_requests_insert :: "uuid \<Rightarrow> friend_request \<Rightarrow> bool" where
  "policy_friend_requests_insert uid r \<longleftrightarrow> uid = fr_sender_id r"

definition policy_friend_requests_update :: "uuid \<Rightarrow> friend_request \<Rightarrow> bool" where
  "policy_friend_requests_update uid r \<longleftrightarrow> uid = fr_receiver_id r"

definition policy_messages_select :: "uuid \<Rightarrow> message \<Rightarrow> bool" where
  "policy_messages_select uid m \<longleftrightarrow> uid = m_sender_id m \<or> uid = m_receiver_id m"

definition policy_messages_insert :: "uuid \<Rightarrow> message \<Rightarrow> bool" where
  "policy_messages_insert uid m \<longleftrightarrow> uid = m_sender_id m"

definition policy_messages_update :: "uuid \<Rightarrow> message \<Rightarrow> bool" where
  "policy_messages_update uid m \<longleftrightarrow> uid = m_receiver_id m"

subsection \<open>Row filters of the query builder\<close>

text \<open>
  The filter text \<^verbatim>\<open>or(and(sender_id.eq.X,receiver_id.eq.Y),and(...))\<close> that
  \<^verbatim>\<open>ChatArea.tsx\<close> hands to \<^verbatim>\<open>select\<close> and to the realtime channel, as a term.
\<close>

datatype column = Sender_id | Receiver_id

datatype row_filter =
    F_eq column uuid
  | F_and row_filter row_filter
  | F_or row_filter row_filter

fun column_value :: "column \<Rightarrow> message \<Rightarrow> uuid" where
  "column_value Sender_id m = m_sender_id m"
| "column_value Receiver_id m = m_receiver_id m"

fun eval_filter :: "row_filter \<Rightarrow> message \<Rightarrow> bool" where
  "eval_filter (F_eq c v) m \<longleftrightarrow> column_value c m = v"
| "eval_filter (F_and f g) m \<longleftrightarrow> eval_filter f m \<and> eval_filter g m"
| "eval_filter (F_or f g) m \<longleftrightarrow> eval_filter f m \<or> eval_filter g m"

definition in_ids :: "uuid list \<Rightarrow> message \<Rightarrow> bool" where
  "in_ids ids m \<longleftrightarrow> m_id m \<in> set ids"

definition eq_id :: "uuid \<Rightarrow> message \<Rightarrow> bool" where
  "eq_id i m \<longleftrightarrow> m_id m = i"

subsection \<open>Statements on \<^verbatim>\<open>profiles\<close>\<close>

definition profile_ids :: "db \<Rightarrow> uuid list" where
  "profile_ids d = map p_id (profiles d)"

text \<open>\<^verbatim>\<open>from('profiles').select('id').eq('email', e)\<close>; the select policy is \<^verbatim>\<open>USING (true)\<close>.\<close>

definition select_profiles_id :: "string \<Rightarrow> db \<Rightarrow> uuid list" where
  "select_profiles_id email d = map p_id (filter (\<lambda>p. p_email p = email) (profiles d))"

text \<open>\<^verbatim>\<open>.single()\<close>: data only when exactly one row came back.\<close>

fun single :: "'a list \<Rightarrow> 'a option" where
  "single [x] = Some x"
| "single _ = None"

text \<open>
  \<^verbatim>\<open>from('profiles').update({ status, last_seen }).eq('id', target)\<close>. The trigger
  \<^verbatim>\<open>update_profiles_updated_at\<close> stamps every updated row.
\<close>

definition update_profiles :: "uuid \<Rightarrow> timestamp \<Rightarrow> string \<Rightarrow> timestamp \<Rightarrow> uuid \<Rightarrow> db \<Rightarrow> db" where
  "update_profiles uid now st seen target d =
     d\<lparr>profiles :=
         map (\<lambda>p. if policy_profiles_update uid p \<and> p_id p = target
                  then p\<lparr>p_status := st, p_last_seen := seen, p_updated_at := now\<rparr>
                  else p)
             (profiles d)\<rparr>"

subsection \<open>Statements on \<^verbatim>\<open>friend_requests\<close> and the friendship trigger\<close>

definition insert_friend_requests ::
  "uuid \<Rightarrow> timestamp \<Rightarrow> uuid \<Rightarrow> uuid \<Rightarrow> req_status \<Rightarrow> db \<Rightarrow> pg_error + db" where
  "insert_friend_requests uid now sender receiver st d =
     (let new = \<lparr>fr_id = gen_random_uuid (map fr_id (friend_requests d)),
                 fr_sender_id = sender, fr_receiver_id = receiver, fr_status = st,
                 fr_created_at = now, fr_updated_at = now\<rparr>
      in if \<not> policy_friend_requests_insert uid new then Inl Insufficient_privilege
         else if \<exists>r \<in> set (friend_requests d).
                   fr_sender_id r = sender \<and> fr_receiver_id r = receiver
              then Inl Unique_violation
         else if sender \<notin> set (profile_ids d) \<or> receiver \<notin> set (profile_ids d)
              then Inl Foreign_key_violation
         else Inr (d\<lparr>friend_requests := friend_requests d @ [new]\<rparr>))"

text \<open>
  \<^verbatim>\<open>INSERT INTO public.friendships (user_id, friend_id) VALUES (u, v) ON CONFLICT DO NOTHING\<close>,
  run inside a \<^verbatim>\<open>SECURITY DEFINER\<close> function, so no policy applies.
\<close>

definition insert_friendships_do_nothing :: "timestamp \<Rightarrow> uuid \<Rightarrow> uuid \<Rightarrow> db \<Rightarrow> pg_error + db" where
  "insert_friendships_do_nothing now u v d =
     (if \<exists>f \<in> set (friendships d). f_user_id f = u \<and> f_friend_id f = v then Inr d
      else if u \<notin> set (profile_ids d) \<or> v \<notin> set (profile_ids d)
           then Inl Foreign_key_violation
      else Inr (d\<lparr>friendships := friendships d @
                   [\<lparr>f_id = gen_random_uuid (map f_id (friendships d)),
                     f_user_id = u, f_friend_id = v, f_created_at = now\<rparr>]\<rparr>))"

definition create_friendship :: "timestamp \<Rightarrow> friend_request \<Rightarrow> db \<Rightarrow> pg_error + db" where
  "create_friendship now new d =
     (if fr_status new = Accepted then
        (case insert_friendships_do_nothing now (fr_sender_id new) (fr_receiver_id new) d of
           Inl e \<Rightarrow> Inl e
         | Inr d1 \<Rightarrow> insert_friendships_do_nothing now (fr_receiver_id new) (fr_sender_id new) d1)
      else Inr d)"

text \<open>
  \<^verbatim>\<open>CREATE TRIGGER on_friend_request_accepted AFTER UPDATE ... FOR EACH ROW
  WHEN (NEW.status = 'accepted' AND OLD.status = 'pending')\<close>
\<close>

definition on_friend_request_accepted ::
  "timestamp \<Rightarrow> friend_request \<Rightarrow> friend_request \<Rightarrow> db \<Rightarrow> pg_error + db" where
  "on_friend_request_accepted now old new d =
     (if fr_status new = Accepted \<and> fr_status old = Pending
      then create_friendship now new d else Inr d)"

fun after_update_triggers ::
  "timestamp \<Rightarrow> (friend_request \<times> friend_request) list \<Rightarrow> db \<Rightarrow> pg_error + db" where
  "after_update_triggers now [] d = Inr d"
| "after_update_triggers now ((old, new) # rows) d =
     (case on_friend_request_accepted now old new d of
        Inl e \<Rightarrow> Inl e
      | Inr d' \<Rightarrow> after_update_triggers now rows d')"

text \<open>\<^verbatim>\<open>update_updated_at_column\<close>, the \<^verbatim>\<open>BEFORE UPDATE\<close> trigger of the table.\<close>

definition update_updated_at_column :: "timestamp \<Rightarrow> friend_request \<Rightarrow> friend_request" where
  "update_updated_at_column now new = new\<lparr>fr_updated_at := now\<rparr>"

text \<open>
  \<^verbatim>\<open>from('friend_requests').update({ status: st }).eq('id', rid)\<close>. The policy's
  \<^verbatim>\<open>USING\<close> clause silently leaves out the rows the caller may not update. The statement
  and its triggers are one transaction: an error in a trigger leaves the store as it was.
\<close>

definition update_friend_requests ::
  "uuid \<Rightarrow> timestamp \<Rightarrow> req_status \<Rightarrow> uuid \<Rightarrow> db \<Rightarrow> pg_error + db" where
  "update_friend_requests uid now st rid d =
     (let hit = (\<lambda>r. policy_friend_requests_update uid r \<and> fr_id r = rid);
          write = (\<lambda>r. update_updated_at_column now (r\<lparr>fr_status := st\<rparr>));
          d1 = d\<lparr>friend_requests :=
                   map (\<lambda>r. if hit r then write r else r) (friend_requests d)\<rparr>
      in after_update_triggers now
           (map (\<lambda>r. (r, write r)) (filter hit (friend_requests d))) d1)"

subsection \<open>Statements on \<^verbatim>\<open>messages\<close>\<close>

text \<open>
  \<^verbatim>\<open>from('messages').select('*').or(flt).order('created_at', { ascending: true })\<close>.
  Rows with the same \<^verbatim>\<open>created_at\<close> come in insertion order, one of the orders the
  database may choose for them.
\<close>

definition select_messages :: "uuid \<Rightarrow> row_filter \<Rightarrow> db \<Rightarrow> message list" where
  "select_messages uid flt d =
     sort_key m_created_at
       (filter (\<lambda>m. policy_messages_select uid m \<and> eval_filter flt m) (messages d))"

text \<open>\<^verbatim>\<open>from('messages').update({ read: v })\<close> followed by \<^verbatim>\<open>.in('id', ids)\<close> or \<^verbatim>\<open>.eq('id', i)\<close>.\<close>

definition update_messages :: "uuid \<Rightarrow> bool \<Rightarrow> (message \<Rightarrow> bool) \<Rightarrow> db \<Rightarrow> db" where
  "update_messages uid v sel d =
     d\<lparr>messages :=
         map (\<lambda>m. if policy_messages_update uid m \<and> sel m then m\<lparr>m_read := v\<rparr> else m)
             (messages d)\<rparr>"

text \<open>
  A \<^verbatim>\<open>TEXT\<close> value holds neither U+0000 nor a surrogate without its partner. The
  string arrives in the JSON body of the request and is refused while the row is built,
  before any policy or constraint is looked at: SQLSTATE 22P05 for U+0000, 22P02 for a high
  surrogate not followed by a low one or a low surrogate not preceded by a high one. The
  first offending code unit decides.
\<close>

definition high_surrogate :: "16 word \<Rightarrow> bool" where
  "high_surrogate c \<longleftrightarrow> 0xD800 \<le> c \<and> c \<le> 0xDBFF"

definition low_surrogate :: "16 word \<Rightarrow> bool" where
  "low_surrogate c \<longleftrightarrow> 0xDC00 \<le> c \<and> c \<le> 0xDFFF"

fun text_error :: "js_string \<Rightarrow> pg_error option" where
  "text_error [] = None"
| "text_error [c] =
     (if c = 0 then Some Untranslatable_character
      else if high_surrogate c \<or> low_surrogate c then Some Invalid_text_representation
      else None)"
| "text_error (c # c' # cs) =
     (if c = 0 then Some Untranslatable_character
      else if high_surrogate c
           then (if low_surrogate c' then text_error cs else Some Invalid_text_representation)
      else if low_surrogate c then Some Invalid_text_representation
      else text_error (c' # cs))"

text \<open>
  \<^verbatim>\<open>from('messages').insert({ sender_id, receiver_id, content })\<close>; \<^verbatim>\<open>read\<close> and
  \<^verbatim>\<open>created_at\<close> take their column defaults.
\<close>

definition insert_messages ::
  "uuid \<Rightarrow> timestamp \<Rightarrow> uuid \<Rightarrow> uuid \<Rightarrow> js_string \<Rightarrow> db \<Rightarrow> pg_error + db" where
  "insert_messages uid now sender receiver content d =
     (case text_error content of
        Some e \<Rightarrow> Inl e
      | None \<Rightarrow>
          (let new = \<lparr>m_id = gen_random_uuid (map m_id (messages d)),
                      m_sender_id = sender, m_receiver_id = receiver, m_content = content,
                      m_read = False, m_created_at = now\<rparr>
           in if \<not> policy_messages_insert uid new then Inl Insufficient_privilege
              else if sender \<notin> set (profile_ids d) \<or> receiver \<notin> set (profile_ids d)
                   then Inl Foreign_key_violation
              else Inr (d\<lparr>messages := messages d @ [new]\<rparr>)))"

section \<open>The client: \<^verbatim>\<open>Chat\<close>, \<^verbatim>\<open>Sidebar.tsx\<close> and \<^verbatim>\<open>ChatArea.tsx\<close>\<close>

text \<open>
  A query builder of the client library describes a request; here it is a function of the
  store. The request is sent when the builder is awaited. A builder that the code drops
  without \<^verbatim>\<open>await\<close> or \<^verbatim>\<open>then\<close> is never sent, so the store stays as it is. A
  failing network is outside the model: an awaited request always reaches the store.
\<close>

definition await :: "(db \<Rightarrow> 'a) \<Rightarrow> db \<Rightarrow> 'a" where
  "await builder d = builder d"

definition unawaited :: "(db \<Rightarrow> 'a) \<Rightarrow> db \<Rightarrow> db" where
  "unawaited builder d = d"

text \<open>What the user is shown: \<^verbatim>\<open>toast.success(text)\<close>, \<^verbatim>\<open>toast.error(text)\<close>, \<^verbatim>\<open>toast.error(error.message)\<close>.\<close>

datatype toast = Toast_success string | Toast_error string | Toast_error_message pg_error

subsection \<open>Presence (the first effect of \<^verbatim>\<open>Chat\<close>)\<close>

record presence =
  interval :: "timestamp option"

definition updateStatus :: "uuid \<Rightarrow> timestamp \<Rightarrow> db \<Rightarrow> db" where
  "updateStatus user_id now d = await (update_profiles user_id now ''online'' now user_id) d"

text \<open>
  Mounting calls \<^verbatim>\<open>updateStatus\<close> and arms \<^verbatim>\<open>setInterval(updateStatus, 30000)\<close>; the
  field \<open>interval\<close> holds the time of the timer's next firing while it is armed. Times
  are taken in the range where \<^verbatim>\<open>toISOString\<close> writes a four-digit year.
\<close>

definition presence_mount :: "uuid \<Rightarrow> timestamp \<Rightarrow> db \<Rightarrow> presence \<times> db" where
  "presence_mount user_id now d = (\<lparr>interval = Some (now + 30000)\<rparr>, updateStatus user_id now d)"

definition presence_tick :: "uuid \<Rightarrow> presence \<Rightarrow> db \<Rightarrow> presence \<times> db" where
  "presence_tick user_id pr d =
     (case interval pr of
        None \<Rightarrow> (pr, d)
      | Some t \<Rightarrow> (\<lparr>interval = Some (t + 30000)\<rparr>, updateStatus user_id t d))"

text \<open>
  The cleanup clears the timer and builds the \<^verbatim>\<open>offline\<close> update; the builder is
  neither awaited nor chained.
\<close>

definition presence_cleanup :: "uuid \<Rightarrow> timestamp \<Rightarrow> presence \<Rightarrow> db \<Rightarrow> presence \<times> db" where
  "presence_cleanup user_id now pr d =
     (\<lparr>interval = None\<rparr>, unawaited (update_profiles user_id now ''offline'' now user_id) d)"

fun presence_ticks :: "nat \<Rightarrow> uuid \<Rightarrow> presence \<times> db \<Rightarrow> presence \<times> db" where
  "presence_ticks 0 user_id s = s"
| "presence_ticks (Suc n) user_id s =
     (case presence_ticks n user_id s of (pr, d) \<Rightarrow> presence_tick user_id pr d)"

subsection \<open>\<^verbatim>\<open>Sidebar.tsx\<close>\<close>

record sidebar =
  searchEmail :: string
  searching :: bool

definition sendFriendRequest ::
  "uuid \<Rightarrow> timestamp \<Rightarrow> sidebar \<Rightarrow> db \<Rightarrow> toast option \<times> sidebar \<times> db" where
  "sendFriendRequest currentUserId now s d =
     (if searchEmail s = [] then (None, s, d)
      else case single (await (select_profiles_id (searchEmail s)) d) of
        None \<Rightarrow> (Some (Toast_error ''User not found''), s\<lparr>searching := False\<rparr>, d)
      | Some pid \<Rightarrow>
          if pid = currentUserId
          then (Some (Toast_error ''You cannot add yourself''), s\<lparr>searching := False\<rparr>, d)
          else (case await (insert_friend_requests currentUserId now currentUserId pid Pending) d of
                  Inl e \<Rightarrow>
                    (if code e = ''23505''
                     then (Some (Toast_error ''Friend request already sent''),
                           s\<lparr>searching := False\<rparr>, d)
                     else (Some (Toast_error_message e), s\<lparr>searching := False\<rparr>, d))
                | Inr d' \<Rightarrow>
                    (Some (Toast_success ''Friend request sent!''),
                     s\<lparr>searchEmail := [], searching := False\<rparr>, d')))"

definition acceptRequest :: "uuid \<Rightarrow> timestamp \<Rightarrow> uuid \<Rightarrow> db \<Rightarrow> toast \<times> db" where
  "acceptRequest currentUserId now requestId d =
     (case await (update_friend_requests currentUserId now Accepted requestId) d of
        Inl e \<Rightarrow> (Toast_error_message e, d)
      | Inr d' \<Rightarrow> (Toast_success ''Friend request accepted!'', d'))"

definition rejectRequest :: "uuid \<Rightarrow> timestamp \<Rightarrow> uuid \<Rightarrow> db \<Rightarrow> toast \<times> db" where
  "rejectRequest currentUserId now requestId d =
     (case await (update_friend_requests currentUserId now Rejected requestId) d of
        Inl e \<Rightarrow> (Toast_error_message e, d)
      | Inr d' \<Rightarrow> (Toast_success ''Friend request rejected'', d'))"

subsection \<open>\<^verbatim>\<open>ChatArea.tsx\<close>\<close>

text \<open>
  \<^verbatim>\<open>String.prototype.trim\<close> strips the code units of ECMAScript's WhiteSpace and
  LineTerminator productions from both ends.
\<close>

definition js_whitespace :: "16 word \<Rightarrow> bool" where
  "js_whitespace c \<longleftrightarrow>
     c \<in> {0x9, 0xA, 0xB, 0xC, 0xD, 0x20, 0xA0, 0x1680, 0x2028, 0x2029, 0x202F, 0x205F,
          0x3000, 0xFEFF}
     \<or> (0x2000 \<le> c \<and> c \<le> 0x200A)"

definition trim :: "js_string \<Rightarrow> js_string" where
  "trim s = rev (dropWhile js_whitespace (rev (dropWhile js_whitespace s)))"

text \<open>The component's state; \<open>messages_state\<close> is the \<^verbatim>\<open>messages\<close> of \<^verbatim>\<open>useState\<close>.\<close>

record chat_area =
  messages_state :: "message list"
  newMessage :: js_string
  sending :: bool

definition conversation_filter :: "uuid \<Rightarrow> uuid \<Rightarrow> row_filter" where
  "conversation_filter currentUserId friend =
     F_or (F_and (F_eq Sender_id currentUserId) (F_eq Receiver_id friend))
          (F_and (F_eq Sender_id friend) (F_eq Receiver_id currentUserId))"

definition loadMessages :: "uuid \<Rightarrow> profile \<Rightarrow> chat_area \<Rightarrow> db \<Rightarrow> chat_area \<times> db" where
  "loadMessages currentUserId selectedFriend c d =
     (let data = await (select_messages currentUserId
                          (conversation_filter currentUserId (p_id selectedFriend))) d;
          c' = c\<lparr>messages_state := data\<rparr>;
          unreadIds = map m_id (filter (\<lambda>m. m_receiver_id m = currentUserId \<and> \<not> m_read m) data)
      in if length unreadIds > 0
         then (c', await (update_messages currentUserId True (in_ids unreadIds)) d)
         else (c', d))"

text \<open>
  The realtime channel of the second effect: \<^verbatim>\<open>INSERT\<close> events of \<^verbatim>\<open>public.messages\<close>
  under the conversation's filter.
\<close>

datatype pg_event = Ev_insert | Ev_update | Ev_delete




text \<open>
  The channel's callback appends the payload; the update that would mark it read is built
  when the payload is addressed to the current user, and dropped.
\<close>

definition on_insert :: "uuid \<Rightarrow> message \<Rightarrow> chat_area \<Rightarrow> db \<Rightarrow> chat_area \<times> db" where
  "on_insert currentUserId payload_new c d =
     (let c' = c\<lparr>messages_state := messages_state c @ [payload_new]\<rparr>
      in if m_receiver_id payload_new = currentUserId
         then (c', unawaited (update_messages currentUserId True (eq_id (m_id payload_new))) d)
         else (c', d))"

fun on_inserts :: "uuid \<Rightarrow> message list \<Rightarrow> chat_area \<Rightarrow> db \<Rightarrow> chat_area \<times> db" where
  "on_inserts currentUserId [] c d = (c, d)"
| "on_inserts currentUserId (p # ps) c d =
     (case on_insert currentUserId p c d of (c', d') \<Rightarrow> on_inserts currentUserId ps c' d')"

definition chat_effect :: "uuid \<Rightarrow> profile option \<Rightarrow> chat_area \<Rightarrow> db \<Rightarrow> chat_area \<times> db" where
  "chat_effect currentUserId selectedFriend c d =
     (case selectedFriend of
        None \<Rightarrow> (c\<lparr>messages_state := []\<rparr>, d)
      | Some friend \<Rightarrow> loadMessages currentUserId friend c d)"

definition sendMessage ::
  "uuid \<Rightarrow> profile option \<Rightarrow> timestamp \<Rightarrow> chat_area \<Rightarrow> db \<Rightarrow> toast option \<times> chat_area \<times> db" where
  "sendMessage currentUserId selectedFriend now c d =
     (case selectedFriend of
        None \<Rightarrow> (None, c, d)
      | Some friend \<Rightarrow>
          if trim (newMessage c) = [] \<or> sending c then (None, c, d)
          else (case await (insert_messages currentUserId now currentUserId (p_id friend)
                              (trim (newMessage c))) d of
                  Inl e \<Rightarrow> (Some (Toast_error_message e), c\<lparr>sending := False\<rparr>, d)
                | Inr d' \<Rightarrow> (None, c\<lparr>newMessage := [], sending := False\<rparr>, d')))"

subsection \<open>Sessions of the core acting on one store\<close>

text \<open>
  Everything a signed-in client does to the store, with the component state it is done
  from. A run is a list of such operations, each by some user at some time.
\<close>

datatype operation =
    Op_presence_mount
  | Op_presence_tick presence
  | Op_presence_cleanup presence
  | Op_sendFriendRequest sidebar
  | Op_acceptRequest uuid
  | Op_rejectRequest uuid
  | Op_loadMessages profile chat_area
  | Op_on_insert message chat_area
  | Op_sendMessage "profile option" chat_area

fun perform :: "uuid \<Rightarrow> timestamp \<Rightarrow> operation \<Rightarrow> db \<Rightarrow> db" where
  "perform uid now Op_presence_mount d = snd (presence_mount uid now d)"
| "perform uid now (Op_presence_tick pr) d = snd (presence_tick uid pr d)"
| "perform uid now (Op_presence_cleanup pr) d = snd (presence_cleanup uid now pr d)"
| "perform uid now (Op_sendFriendRequest s) d = snd (snd (sendFriendRequest uid now s d))"
| "perform uid now (Op_acceptRequest rid) d = snd (acceptRequest uid now rid d)"
| "perform uid now (Op_rejectRequest rid) d = snd (rejectRequest uid now rid d)"
| "perform uid now (Op_loadMessages friend c) d = snd (loadMessages uid friend c d)"
| "perform uid now (Op_on_insert p c) d = snd (on_insert uid p c d)"
| "perform uid now (Op_sendMessage friend c) d = snd (snd (sendMessage uid friend now c d))"

fun run :: "(uuid \<times> timestamp \<times> operation) list \<Rightarrow> db \<Rightarrow> db" where
  "run [] d = d"
| "run ((uid, now, op) # ops) d = run ops (perform uid now op d)"

section \<open>Notions the properties are stated with\<close>

text \<open>The directed friendship edges of the store, in insertion order.\<close>

definition edges :: "db \<Rightarrow> (uuid \<times> uuid) list" where
  "edges d = map (\<lambda>f. (f_user_id f, f_friend_id f)) (friendships d)"

text \<open>The requests of one ordered (sender, receiver) pair.\<close>

definition requests_of :: "uuid \<Rightarrow> uuid \<Rightarrow> db \<Rightarrow> friend_request list" where
  "requests_of a b d =
     filter (\<lambda>r. fr_sender_id r = a \<and> fr_receiver_id r = b) (friend_requests d)"

text \<open>
  The schema's constraints on a store: \<^verbatim>\<open>PRIMARY KEY\<close>, \<^verbatim>\<open>UNIQUE\<close> and
  \<^verbatim>\<open>REFERENCES public.profiles(id)\<close>.
\<close>

definition primary_keys :: "db \<Rightarrow> bool" where
  "primary_keys d \<longleftrightarrow>
     distinct (map p_id (profiles d)) \<and> distinct (map fr_id (friend_requests d)) \<and>
     distinct (map f_id (friendships d)) \<and> distinct (map m_id (messages d))"

definition unique_keys :: "db \<Rightarrow> bool" where
  "unique_keys d \<longleftrightarrow>
     distinct (map (\<lambda>r. (fr_sender_id r, fr_receiver_id r)) (friend_requests d)) \<and>
     distinct (edges d)"

definition foreign_keys :: "db \<Rightarrow> bool" where
  "foreign_keys d \<longleftrightarrow>
     list_all (\<lambda>r. fr_sender_id r \<in> set (profile_ids d) \<and> fr_receiver_id r \<in> set (profile_ids d))
       (friend_requests d) \<and>
     list_all (\<lambda>f. f_user_id f \<in> set (profile_ids d) \<and> f_friend_id f \<in> set (profile_ids d))
       (friendships d) \<and>
     list_all (\<lambda>m. m_sender_id m \<in> set (profile_ids d) \<and> m_receiver_id m \<in> set (profile_ids d))
       (messages d)"

definition constraints :: "db \<Rightarrow> bool" where
  "constraints d \<longleftrightarrow> primary_keys d \<and> unique_keys d \<and> foreign_keys d"

text \<open>A message belongs to the conversation of the unordered pair \<open>{a, b}\<close>.\<close>

definition conversation :: "uuid \<Rightarrow> uuid \<Rightarrow> message \<Rightarrow> bool" where
  "conversation a b m \<longleftrightarrow> {m_sender_id m, m_receiver_id m} = {a, b}"

text \<open>How many entries of a message list carry a given id.\<close>

definition entries :: "uuid \<Rightarrow> message list \<Rightarrow> nat" where
  "entries i ms = length (filter (\<lambda>m. m_id m = i) ms)"

text \<open>
  One row before and after a step: nothing but the read flag differs, and the flag does not
  fall. With an actor: the flag rises only when the actor is the row's receiver.
\<close>

definition read_rises :: "message \<Rightarrow> message \<Rightarrow> bool" where
  "read_rises m m' \<longleftrightarrow> m'\<lparr>m_read := m_read m\<rparr> = m \<and> (m_read m \<longrightarrow> m_read m')"

definition read_rises_by :: "uuid \<Rightarrow> message \<Rightarrow> message \<Rightarrow> bool" where
  "read_rises_by uid m m' \<longleftrightarrow>
     read_rises m m' \<and> (m_read m' \<noteq> m_read m \<longrightarrow> m_receiver_id m = uid)"

text \<open>A table before and after: old rows keep their place, new rows come behind them.\<close>

definition rows_step :: "(message \<Rightarrow> message \<Rightarrow> bool) \<Rightarrow> message list \<Rightarrow> message list \<Rightarrow> bool" where
  "rows_step R ms ms' \<longleftrightarrow> length ms \<le> length ms' \<and> list_all2 R ms (take (length ms) ms')"

fun run_obeys :: "(uuid \<times> timestamp \<times> operation) list \<Rightarrow> db \<Rightarrow> bool" where
  "run_obeys [] d \<longleftrightarrow> True"
| "run_obeys ((uid, now, op) # ops) d \<longleftrightarrow>
     rows_step (read_rises_by uid) (messages d) (messages (perform uid now op d)) \<and>
     run_obeys ops (perform uid now op d)"

section \<open>Example stores\<close>

definition alice :: profile where
  "alice = \<lparr>p_id = 1, p_email = ''alice@x.com'', p_status = ''offline'',
             p_last_seen = 0, p_updated_at = 0\<rparr>"

definition bob :: profile where
  "bob = \<lparr>p_id = 2, p_email = ''bob@x.com'', p_status = ''offline'',
           p_last_seen = 0, p_updated_at = 0\<rparr>"

definition carol :: profile where
  "carol = \<lparr>p_id = 3, p_email = ''carol@x.com'', p_status = ''offline'',
             p_last_seen = 0, p_updated_at = 0\<rparr>"

definition request_7 :: friend_request where
  "request_7 = \<lparr>fr_id = 7, fr_sender_id = 1, fr_receiver_id = 2, fr_status = Pending,
                 fr_created_at = 10, fr_updated_at = 10\<rparr>"

definition store_pending :: db where
  "store_pending = \<lparr>profiles = [alice, bob, carol], friend_requests = [request_7],
                     friendships = [], messages = []\<rparr>"

definition store_half_friends :: db where
  "store_half_friends =
     \<lparr>profiles = [alice, bob, carol], friend_requests = [request_7],
      friendships = [\<lparr>f_id = 5, f_user_id = 1, f_friend_id = 2, f_created_at = 3\<rparr>],
      messages = []\<rparr>"

definition store_fresh :: db where
  "store_fresh = \<lparr>profiles = [alice, bob, carol], friend_requests = [],
                   friendships = [], messages = []\<rparr>"

definition request_8 :: friend_request where
  "request_8 = \<lparr>fr_id = 8, fr_sender_id = 3, fr_receiver_id = 2, fr_status = Rejected,
                 fr_created_at = 11, fr_updated_at = 12\<rparr>"

definition store_rejected :: db where
  "store_rejected = \<lparr>profiles = [alice, bob, carol], friend_requests = [request_8],
                      friendships = [], messages = []\<rparr>"

definition message_41 :: message where
  "message_41 = \<lparr>m_id = 41, m_sender_id = 1, m_receiver_id = 2, m_content = [0x68, 0x69],
                  m_read = False, m_created_at = 30\<rparr>"

definition message_42 :: message where
  "message_42 = \<lparr>m_id = 42, m_sender_id = 2, m_receiver_id = 1, m_content = [0x79, 0x6F],
                  m_read = False, m_created_at = 20\<rparr>"

definition message_43 :: message where
  "message_43 = \<lparr>m_id = 43, m_sender_id = 3, m_receiver_id = 2, m_content = [0x3F],
                  m_read = False, m_created_at = 25\<rparr>"

definition store_chat :: db where
  "store_chat = \<lparr>profiles = [alice, bob, carol], friend_requests = [],
                  friendships = [], messages = [message_41, message_42, message_43]\<rparr>"

definition chat_idle :: chat_area where
  "chat_idle = \<lparr>messages_state = [], newMessage = [], sending = False\<rparr>"

definition chat_blank :: chat_area where
  "chat_blank = \<lparr>messages_state = [], newMessage = [0x20, 0x9, 0xA0], sending = False\<rparr>"

definition chat_padded :: chat_area where
  "chat_padded = \<lparr>messages_state = [], newMessage = [0x20, 0x68, 0x20, 0x69, 0xA, 0x20],
                   sending = False\<rparr>"

definition chat_nul :: chat_area where
  "chat_nul = \<lparr>messages_state = [], newMessage = [0x61, 0, 0x62], sending = False\<rparr>"

definition two_loads :: "(uuid \<times> timestamp \<times> operation) list" where
  "two_loads = [(2, 40, Op_loadMessages alice chat_idle), (1, 41, Op_loadMessages bob chat_idle)]"

section \<open>Verified properties\<close>

subsection \<open>The schema's constraints hold along every run\<close>

lemma fold_max_ge: "a \<le> fold max xs (a::nat)"
proof (induction xs arbitrary: a)
  case Nil
  show ?case by simp
next
  case (Cons x xs)
  have "a \<le> max x a" by simp
  also have "\<dots> \<le> fold max xs (max x a)" by (rule Cons.IH)
  finally show ?case by simp
qed

lemma fold_max_member: "x \<in> set xs \<Longrightarrow> x \<le> fold max xs (a::nat)"
proof (induction xs arbitrary: a)
  case Nil
  then show ?case by simp
next
  case (Cons y ys)
  show ?case
  proof (cases "x = y")
    case True
    have "x \<le> max y a" using True by simp
    also have "\<dots> \<le> fold max ys (max y a)" by (rule fold_max_ge)
    finally show ?thesis by simp
  next
    case False
    with Cons.prems have "x \<in> set ys" by simp
    then have "x \<le> fold max ys (max y a)" by (rule Cons.IH)
    then show ?thesis by simp
  qed
qed

lemma gen_random_uuid_fresh: "gen_random_uuid used \<notin> set used"
proof
  assume "gen_random_uuid used \<in> set used"
  then have "gen_random_uuid used \<le> fold max used 0" by (rule fold_max_member)
  then show False by (simp add: gen_random_uuid_def)
qed

text \<open>The three constraint groups depend on the tables only through these projections.\<close>

lemma primary_keys_cong:
  assumes "map p_id (profiles d') = map p_id (profiles d)"
    "map fr_id (friend_requests d') = map fr_id (friend_requests d)"
    "map f_id (friendships d') = map f_id (friendships d)"
    "map m_id (messages d') = map m_id (messages d)"
  shows "primary_keys d' = primary_keys d"
  by (simp add: primary_keys_def assms)

lemma unique_keys_cong:
  assumes "map (\<lambda>r. (fr_sender_id r, fr_receiver_id r)) (friend_requests d') =
           map (\<lambda>r. (fr_sender_id r, fr_receiver_id r)) (friend_requests d)"
    "edges d' = edges d"
  shows "unique_keys d' = unique_keys d"
  by (simp add: unique_keys_def assms)

lemma foreign_keys_cong:
  assumes "set (profile_ids d') = set (profile_ids d)"
    "map (\<lambda>r. (fr_sender_id r, fr_receiver_id r)) (friend_requests d') =
     map (\<lambda>r. (fr_sender_id r, fr_receiver_id r)) (friend_requests d)"
    "edges d' = edges d"
    "map (\<lambda>m. (m_sender_id m, m_receiver_id m)) (messages d') =
     map (\<lambda>m. (m_sender_id m, m_receiver_id m)) (messages d)"
  shows "foreign_keys d' = foreign_keys d"
proof -
  have fk: "foreign_keys x \<longleftrightarrow>
      (\<forall>k \<in> set (map (\<lambda>r. (fr_sender_id r, fr_receiver_id r)) (friend_requests x)).
          fst k \<in> set (profile_ids x) \<and> snd k \<in> set (profile_ids x)) \<and>
      (\<forall>k \<in> set (edges x). fst k \<in> set (profile_ids x) \<and> snd k \<in> set (profile_ids x)) \<and>
      (\<forall>k \<in> set (map (\<lambda>m. (m_sender_id m, m_receiver_id m)) (messages x)).
          fst k \<in> set (profile_ids x) \<and> snd k \<in> set (profile_ids x))" for x
    by (simp add: foreign_keys_def list_all_iff edges_def)
  show ?thesis unfolding fk assms ..
qed

lemma constraints_cong:
  assumes "map p_id (profiles d') = map p_id (profiles d)"
    "map fr_id (friend_requests d') = map fr_id (friend_requests d)"
    "map (\<lambda>r. (fr_sender_id r, fr_receiver_id r)) (friend_requests d') =
     map (\<lambda>r. (fr_sender_id r, fr_receiver_id r)) (friend_requests d)"
    "friendships d' = friendships d"
    "map m_id (messages d') = map m_id (messages d)"
    "map (\<lambda>m. (m_sender_id m, m_receiver_id m)) (messages d') =
     map (\<lambda>m. (m_sender_id m, m_receiver_id m)) (messages d)"
  shows "constraints d' = constraints d"
proof -
  have e: "edges d' = edges d" by (simp add: edges_def assms(4))
  have p: "set (profile_ids d') = set (profile_ids d)" by (simp add: profile_ids_def assms(1))
  have "primary_keys d' = primary_keys d"
    by (rule primary_keys_cong) (simp_all add: assms)
  moreover have "unique_keys d' = unique_keys d"
    using assms(3) e by (rule unique_keys_cong)
  moreover have "foreign_keys d' = foreign_keys d"
    using p assms(3) e assms(6) by (rule foreign_keys_cong)
  ultimately show ?thesis by (simp add: constraints_def)
qed

lemma update_profiles_constraints:
  "constraints (update_profiles uid now st seen target d) = constraints d"
  by (rule constraints_cong) (simp_all add: update_profiles_def comp_def cong: if_cong)

lemma update_messages_constraints:
  "constraints (update_messages uid v sel d) = constraints d"
  by (rule constraints_cong) (simp_all add: update_messages_def comp_def cong: if_cong)

lemma insert_messages_constraints:
  assumes "insert_messages uid now sender receiver content d = Inr d'" "constraints d"
  shows "constraints d'"
proof -
  let ?new = "\<lparr>m_id = gen_random_uuid (map m_id (messages d)), m_sender_id = sender,
               m_receiver_id = receiver, m_content = content, m_read = False,
               m_created_at = now\<rparr>"
  from assms(1) have d': "d' = d\<lparr>messages := messages d @ [?new]\<rparr>"
    and fk: "sender \<in> set (profile_ids d)" "receiver \<in> set (profile_ids d)"
    by (auto simp: insert_messages_def Let_def split: if_splits option.splits)
  have fresh: "m_id ?new \<notin> set (map m_id (messages d))"
    using gen_random_uuid_fresh [of "map m_id (messages d)"] by simp
  have "primary_keys d'"
    using assms(2) fresh unfolding d' by (simp add: constraints_def primary_keys_def)
  moreover have "unique_keys d'"
    using assms(2) unfolding d' by (simp add: constraints_def unique_keys_def edges_def)
  moreover have "foreign_keys d'"
    using assms(2) fk unfolding d' by (simp add: constraints_def foreign_keys_def profile_ids_def)
  ultimately show ?thesis by (simp add: constraints_def)
qed

lemma insert_friend_requests_constraints:
  assumes "insert_friend_requests uid now sender receiver st d = Inr d'" "constraints d"
  shows "constraints d'"
proof -
  let ?new = "\<lparr>fr_id = gen_random_uuid (map fr_id (friend_requests d)),
               fr_sender_id = sender, fr_receiver_id = receiver, fr_status = st,
               fr_created_at = now, fr_updated_at = now\<rparr>"
  from assms(1) have d': "d' = d\<lparr>friend_requests := friend_requests d @ [?new]\<rparr>"
    and fk: "sender \<in> set (profile_ids d)" "receiver \<in> set (profile_ids d)"
    and un: "\<not> (\<exists>r \<in> set (friend_requests d). fr_sender_id r = sender \<and> fr_receiver_id r = receiver)"
    by (auto simp: insert_friend_requests_def Let_def split: if_splits)
  have fresh: "fr_id ?new \<notin> set (map fr_id (friend_requests d))"
    using gen_random_uuid_fresh [of "map fr_id (friend_requests d)"] by simp
  have pair: "(sender, receiver) \<notin> set (map (\<lambda>r. (fr_sender_id r, fr_receiver_id r)) (friend_requests d))"
    using un by auto
  have "primary_keys d'"
    using assms(2) fresh unfolding d' by (simp add: constraints_def primary_keys_def)
  moreover have "unique_keys d'"
    using assms(2) pair unfolding d' by (simp add: constraints_def unique_keys_def edges_def)
  moreover have "foreign_keys d'"
    using assms(2) fk unfolding d' by (simp add: constraints_def foreign_keys_def profile_ids_def)
  ultimately show ?thesis by (simp add: constraints_def)
qed

lemma insert_friendships_constraints:
  assumes "insert_friendships_do_nothing now u v d = Inr d'" "constraints d"
  shows "constraints d' \<and> profiles d' = profiles d \<and> friend_requests d' = friend_requests d"
proof (cases "\<exists>f \<in> set (friendships d). f_user_id f = u \<and> f_friend_id f = v")
  case True
  with assms show ?thesis by (simp add: insert_friendships_do_nothing_def)
next
  case False
  let ?new = "\<lparr>f_id = gen_random_uuid (map f_id (friendships d)),
               f_user_id = u, f_friend_id = v, f_created_at = now\<rparr>"
  from assms(1) False have d': "d' = d\<lparr>friendships := friendships d @ [?new]\<rparr>"
    and fk: "u \<in> set (profile_ids d)" "v \<in> set (profile_ids d)"
    by (auto simp: insert_friendships_do_nothing_def split: if_splits)
  have fresh: "f_id ?new \<notin> set (map f_id (friendships d))"
    using gen_random_uuid_fresh [of "map f_id (friendships d)"] by simp
  have pair: "(u, v) \<notin> set (edges d)" using False by (auto simp: edges_def)
  have "primary_keys d'"
    using assms(2) fresh unfolding d' by (simp add: constraints_def primary_keys_def)
  moreover have "unique_keys d'"
    using assms(2) pair unfolding d' by (simp add: constraints_def unique_keys_def edges_def)
  moreover have "foreign_keys d'"
    using assms(2) fk unfolding d' by (simp add: constraints_def foreign_keys_def profile_ids_def)
  ultimately show ?thesis unfolding d' by (simp add: constraints_def)
qed

lemma create_friendship_constraints:
  assumes "create_friendship now new d = Inr d'" "constraints d"
  shows "constraints d'"
proof (cases "fr_status new = Accepted")
  case True
  with assms(1) obtain d1 where
    1: "insert_friendships_do_nothing now (fr_sender_id new) (fr_receiver_id new) d = Inr d1" and
    2: "insert_friendships_do_nothing now (fr_receiver_id new) (fr_sender_id new) d1 = Inr d'"
    by (auto simp: create_friendship_def split: sum.splits)
  from insert_friendships_constraints [OF 1 assms(2)] have "constraints d1" by (rule conjunct1)
  with 2 show ?thesis by (rule insert_friendships_constraints [THEN conjunct1])
next
  case False
  with assms show ?thesis by (simp add: create_friendship_def)
qed

lemma after_update_triggers_constraints:
  "after_update_triggers now rows d = Inr d' \<Longrightarrow> constraints d \<Longrightarrow> constraints d'"
proof (induction rows arbitrary: d)
  case Nil
  then show ?case by simp
next
  case (Cons row rows)
  obtain old new where row: "row = (old, new)" by (cases row)
  from Cons.prems(1) row obtain d1 where
    1: "on_friend_request_accepted now old new d = Inr d1" and
    2: "after_update_triggers now rows d1 = Inr d'"
    by (auto split: sum.splits)
  have "constraints d1"
  proof (cases "fr_status new = Accepted \<and> fr_status old = Pending")
    case True
    with 1 have "create_friendship now new d = Inr d1"
      by (simp add: on_friend_request_accepted_def)
    then show ?thesis using Cons.prems(2) by (rule create_friendship_constraints)
  next
    case False
    with 1 have "d1 = d" by (auto simp: on_friend_request_accepted_def)
    with Cons.prems(2) show ?thesis by simp
  qed
  with 2 show ?case by (rule Cons.IH)
qed

lemma update_friend_requests_constraints:
  assumes "update_friend_requests uid now st rid d = Inr d'" "constraints d"
  shows "constraints d'"
proof -
  let ?hit = "\<lambda>r. policy_friend_requests_update uid r \<and> fr_id r = rid"
  let ?stamp = "\<lambda>r. update_updated_at_column now (r\<lparr>fr_status := st\<rparr>)"
  let ?d1 = "d\<lparr>friend_requests := map (\<lambda>r. if ?hit r then ?stamp r else r) (friend_requests d)\<rparr>"
  have "constraints ?d1 = constraints d"
    by (rule constraints_cong)
       (simp_all add: comp_def update_updated_at_column_def cong: if_cong)
  with assms(2) have "constraints ?d1" by simp
  moreover have "after_update_triggers now (map (\<lambda>r. (r, ?stamp r)) (filter ?hit (friend_requests d))) ?d1 = Inr d'"
    using assms(1) by (simp only: update_friend_requests_def Let_def)
  ultimately show ?thesis by (rule after_update_triggers_constraints [rotated])
qed

lemma perform_constraints:
  assumes "constraints d"
  shows "constraints (perform uid now op d)"
proof (cases op)
  case Op_presence_mount
  then show ?thesis
    using assms by (simp add: presence_mount_def updateStatus_def await_def update_profiles_constraints)
next
  case (Op_presence_tick pr)
  then show ?thesis
    using assms
    by (simp add: presence_tick_def updateStatus_def await_def update_profiles_constraints
        split: option.splits)
next
  case (Op_presence_cleanup pr)
  then show ?thesis using assms by (simp add: presence_cleanup_def unawaited_def)
next
  case (Op_sendFriendRequest s)
  then show ?thesis
    using assms
    by (auto simp: sendFriendRequest_def await_def split: option.splits sum.splits
        intro: insert_friend_requests_constraints)
next
  case (Op_acceptRequest rid)
  then show ?thesis
    using assms
    by (auto simp: acceptRequest_def await_def split: sum.splits
        intro: update_friend_requests_constraints)
next
  case (Op_rejectRequest rid)
  then show ?thesis
    using assms
    by (auto simp: rejectRequest_def await_def split: sum.splits
        intro: update_friend_requests_constraints)
next
  case (Op_loadMessages friend c)
  then show ?thesis
    using assms by (simp add: loadMessages_def Let_def await_def update_messages_constraints)
next
  case (Op_on_insert p c)
  then show ?thesis using assms by (simp add: on_insert_def Let_def unawaited_def)
next
  case (Op_sendMessage friend c)
  then show ?thesis
    using assms
    by (auto simp: sendMessage_def await_def split: option.splits sum.splits
        intro: insert_messages_constraints)
qed

lemma run_constraints: "constraints d \<Longrightarrow> constraints (run ops d)"
proof (induction ops arbitrary: d)
  case Nil
  then show ?case by simp
next
  case (Cons step ops)
  obtain uid now op where "step = (uid, now, op)" by (cases step)
  with Cons.IH [OF perform_constraints [OF Cons.prems, of uid now op]] show ?case by simp
qed

subsection \<open>Accepting a request\<close>

lemma filter_key_distinct:
  "distinct (map f xs) \<Longrightarrow> x \<in> set xs \<Longrightarrow> filter (\<lambda>y. P y \<and> f y = f x) xs = (if P x then [x] else [])"
proof (induction xs)
  case Nil
  then show ?case by simp
next
  case (Cons a xs)
  show ?case
  proof (cases "a = x")
    case True
    have "\<forall>y\<in>set xs. f y \<noteq> f x" using Cons.prems True by (auto simp: image_iff)
    then have "filter (\<lambda>y. P y \<and> f y = f x) xs = []" by (simp add: filter_empty_conv)
    with True show ?thesis by simp
  next
    case False
    then have "x \<in> set xs" using Cons.prems by simp
    moreover have "f a \<noteq> f x" using Cons.prems False \<open>x \<in> set xs\<close> by auto
    ultimately show ?thesis using Cons by simp
  qed
qed

lemma insert_friendships_edges:
  "u \<in> set (profile_ids d) \<Longrightarrow> v \<in> set (profile_ids d) \<Longrightarrow>
   \<exists>d'. insert_friendships_do_nothing now u v d = Inr d' \<and>
        edges d' = edges d @ (if (u, v) \<in> set (edges d) then [] else [(u, v)]) \<and>
        profiles d' = profiles d \<and> friend_requests d' = friend_requests d \<and>
        messages d' = messages d"
  by (auto simp: insert_friendships_do_nothing_def edges_def image_iff)


lemma create_friendship_edges:
  assumes "fr_status new = Accepted" "fr_sender_id new \<in> set (profile_ids d)"
      "fr_receiver_id new \<in> set (profile_ids d)"
  shows "\<exists>d'. create_friendship now new d = Inr d' \<and>
        edges d' = edges d @ filter (\<lambda>e. e \<notin> set (edges d))
                     (remdups [(fr_sender_id new, fr_receiver_id new), (fr_receiver_id new, fr_sender_id new)]) \<and>
        profiles d' = profiles d \<and> friend_requests d' = friend_requests d \<and>
        messages d' = messages d"
proof -
  let ?a = "fr_sender_id new" and ?b = "fr_receiver_id new"
  obtain d1 where d1: "insert_friendships_do_nothing now ?a ?b d = Inr d1"
    "edges d1 = edges d @ (if (?a, ?b) \<in> set (edges d) then [] else [(?a, ?b)])"
    "profiles d1 = profiles d" "friend_requests d1 = friend_requests d" "messages d1 = messages d"
    using insert_friendships_edges [OF assms(2,3)] by blast
  have "?b \<in> set (profile_ids d1)" "?a \<in> set (profile_ids d1)"
    using assms d1(3) by (simp_all add: profile_ids_def)
  then obtain d2 where d2: "insert_friendships_do_nothing now ?b ?a d1 = Inr d2"
    "edges d2 = edges d1 @ (if (?b, ?a) \<in> set (edges d1) then [] else [(?b, ?a)])"
    "profiles d2 = profiles d1" "friend_requests d2 = friend_requests d1" "messages d2 = messages d1"
    using insert_friendships_edges by blast
  have "create_friendship now new d = Inr d2"
    using assms(1) d1(1) d2(1) by (simp add: create_friendship_def)
  moreover have "edges d2 = edges d @ filter (\<lambda>e. e \<notin> set (edges d)) (remdups [(?a, ?b), (?b, ?a)])"
  proof (cases "?a = ?b")
    case True
    then show ?thesis using d1(2) d2(2) by simp
  next
    case False
    then show ?thesis using d1(2) d2(2) by simp
  qed
  moreover have "profiles d2 = profiles d" "friend_requests d2 = friend_requests d" "messages d2 = messages d"
    using d1(3-5) d2(3-5) by simp_all
  ultimately show ?thesis by blast
qed


lemma map_if_key_distinct:
  "distinct (map f xs) \<Longrightarrow> x \<in> set xs \<Longrightarrow> P x \<Longrightarrow>
   map (\<lambda>y. if P y \<and> f y = f x then g y else y) xs = map (\<lambda>y. if f y = f x then g y else y) xs"
  by (rule map_cong) (auto simp: distinct_map inj_on_def)

lemma update_friend_requests_miss:
  assumes "\<forall>r \<in> set (friend_requests d). \<not> (fr_receiver_id r = uid \<and> fr_id r = rid)"
  shows "update_friend_requests uid now st rid d = Inr d"
proof -
  have "filter (\<lambda>r. policy_friend_requests_update uid r \<and> fr_id r = rid) (friend_requests d) = []"
    using assms by (auto simp: filter_empty_conv policy_friend_requests_update_def)
  moreover have "map (\<lambda>r. if policy_friend_requests_update uid r \<and> fr_id r = rid
                          then update_updated_at_column now (r\<lparr>fr_status := st\<rparr>) else r)
                     (friend_requests d) = friend_requests d"
    by (rule map_idI) (use assms in \<open>auto simp: policy_friend_requests_update_def\<close>)
  ultimately show ?thesis by (simp add: update_friend_requests_def)
qed

lemma update_friend_requests_hit:
  assumes "r \<in> set (friend_requests d)" "distinct (map fr_id (friend_requests d))"
  shows "update_friend_requests (fr_receiver_id r) now st (fr_id r) d =
         on_friend_request_accepted now r (r\<lparr>fr_status := st, fr_updated_at := now\<rparr>)
           (d\<lparr>friend_requests :=
                map (\<lambda>x. if fr_id x = fr_id r then x\<lparr>fr_status := st, fr_updated_at := now\<rparr> else x)
                    (friend_requests d)\<rparr>)"
proof -
  let ?P = "policy_friend_requests_update (fr_receiver_id r)"
  have P: "?P r" by (simp add: policy_friend_requests_update_def)
  have F: "filter (\<lambda>x. ?P x \<and> fr_id x = fr_id r) (friend_requests d) = [r]"
    using filter_key_distinct [OF assms(2,1), of ?P] P by simp
  have M: "map (\<lambda>x. if ?P x \<and> fr_id x = fr_id r
                          then update_updated_at_column now (x\<lparr>fr_status := st\<rparr>) else x)
                     (friend_requests d) =
                 map (\<lambda>x. if fr_id x = fr_id r
                          then update_updated_at_column now (x\<lparr>fr_status := st\<rparr>) else x)
                     (friend_requests d)"
    using assms P by (intro map_if_key_distinct)
  show ?thesis
    unfolding update_friend_requests_def Let_def F M
    by (simp add: update_updated_at_column_def cong: if_cong split: sum.splits)
qed

lemma constraints_request:
  assumes "constraints d" "r \<in> set (friend_requests d)"
  shows "distinct (map fr_id (friend_requests d))"
    "fr_sender_id r \<in> set (profile_ids d)" "fr_receiver_id r \<in> set (profile_ids d)"
  using assms by (auto simp: constraints_def primary_keys_def foreign_keys_def list_all_iff)

lemma accept_by_receiver:
  assumes "constraints d" "r \<in> set (friend_requests d)" "fr_status r = Pending"
  shows "\<exists>d'. acceptRequest (fr_receiver_id r) now (fr_id r) d =
               (Toast_success ''Friend request accepted!'', d') \<and>
          friend_requests d' =
            map (\<lambda>x. if fr_id x = fr_id r then x\<lparr>fr_status := Accepted, fr_updated_at := now\<rparr> else x)
                (friend_requests d) \<and>
          edges d' = edges d @ filter (\<lambda>e. e \<notin> set (edges d))
            (remdups [(fr_sender_id r, fr_receiver_id r), (fr_receiver_id r, fr_sender_id r)]) \<and>
          profiles d' = profiles d \<and> messages d' = messages d"
proof -
  let ?new = "r\<lparr>fr_status := Accepted, fr_updated_at := now\<rparr>"
  let ?d1 = "d\<lparr>friend_requests :=
                map (\<lambda>x. if fr_id x = fr_id r then x\<lparr>fr_status := Accepted, fr_updated_at := now\<rparr> else x)
                    (friend_requests d)\<rparr>"
  note c = constraints_request [OF assms(1,2)]
  have upd: "update_friend_requests (fr_receiver_id r) now Accepted (fr_id r) d =
             create_friendship now ?new ?d1"
    using update_friend_requests_hit [OF assms(2) c(1), of now Accepted] assms(3)
    by (simp add: on_friend_request_accepted_def)
  have "fr_status ?new = Accepted" "fr_sender_id ?new \<in> set (profile_ids ?d1)"
    "fr_receiver_id ?new \<in> set (profile_ids ?d1)"
    using c(2,3) by (simp_all add: profile_ids_def)
  from create_friendship_edges [OF this, of now]
  obtain d' where d': "create_friendship now ?new ?d1 = Inr d'"
    "edges d' = edges ?d1 @ filter (\<lambda>e. e \<notin> set (edges ?d1))
        (remdups [(fr_sender_id ?new, fr_receiver_id ?new), (fr_receiver_id ?new, fr_sender_id ?new)])"
    "profiles d' = profiles ?d1" "friend_requests d' = friend_requests ?d1" "messages d' = messages ?d1"
    by blast
  have e1: "edges ?d1 = edges d" by (simp add: edges_def)
  have sel: "fr_sender_id ?new = fr_sender_id r" "fr_receiver_id ?new = fr_receiver_id r"
    by simp_all
  have "acceptRequest (fr_receiver_id r) now (fr_id r) d = (Toast_success ''Friend request accepted!'', d')"
    using upd d'(1) by (simp add: acceptRequest_def await_def)
  moreover have "edges d' = edges d @ filter (\<lambda>e. e \<notin> set (edges d))
            (remdups [(fr_sender_id r, fr_receiver_id r), (fr_receiver_id r, fr_sender_id r)])"
    using d'(2) unfolding e1 sel .
  moreover have "friend_requests d' =
            map (\<lambda>x. if fr_id x = fr_id r then x\<lparr>fr_status := Accepted, fr_updated_at := now\<rparr> else x)
                (friend_requests d)" "profiles d' = profiles d" "messages d' = messages d"
    using d'(3-5) by simp_all
  ultimately show ?thesis by blast
qed

lemma accept_by_other:
  assumes "constraints d" "r \<in> set (friend_requests d)" "uid \<noteq> fr_receiver_id r"
  shows "update_friend_requests uid now st (fr_id r) d = Inr d"
proof (rule update_friend_requests_miss)
  have "distinct (map fr_id (friend_requests d))" by (rule constraints_request [OF assms(1,2)])
  then have "\<And>x. x \<in> set (friend_requests d) \<Longrightarrow> fr_id x = fr_id r \<Longrightarrow> x = r"
    using assms(2) by (auto simp: distinct_map inj_on_def)
  then show "\<forall>x\<in>set (friend_requests d). \<not> (fr_receiver_id x = uid \<and> fr_id x = fr_id r)"
    using assms(3) by auto
qed

lemma distinct_append_fresh:
  "distinct xs \<Longrightarrow> distinct (xs @ filter (\<lambda>e. e \<notin> set xs) (remdups ys))"
  by (induction ys) auto

lemma set_append_fresh:
  "set (xs @ filter (\<lambda>e. e \<notin> set xs) (remdups ys)) = set xs \<union> set ys"
  by auto

text \<open>
  C1. Accepting a pending request between A and B, as its receiver, reports success, sets
  the request's status to accepted, and leaves exactly the edges (A,B) and (B,A) added to
  the friendships: an edge that was there before is neither an error nor duplicated, and no
  other table changes. Whoever calls it, the store afterwards is either unchanged or shows
  the accepted request together with both edges.
\<close>

theorem accept_pending_request:
  assumes "constraints d" "r \<in> set (friend_requests d)" "fr_status r = Pending"
  shows "(\<exists>d'. acceptRequest (fr_receiver_id r) now (fr_id r) d =
                 (Toast_success ''Friend request accepted!'', d') \<and>
              friend_requests d' =
                map (\<lambda>x. if fr_id x = fr_id r
                         then x\<lparr>fr_status := Accepted, fr_updated_at := now\<rparr> else x)
                    (friend_requests d) \<and>
              edges d' = edges d @ filter (\<lambda>e. e \<notin> set (edges d))
                (remdups [(fr_sender_id r, fr_receiver_id r), (fr_receiver_id r, fr_sender_id r)]) \<and>
              set (edges d') = set (edges d) \<union>
                {(fr_sender_id r, fr_receiver_id r), (fr_receiver_id r, fr_sender_id r)} \<and>
              distinct (edges d') \<and> profiles d' = profiles d \<and> messages d' = messages d) \<and>
         (\<forall>uid. snd (acceptRequest uid now (fr_id r) d) = d \<or>
            (r\<lparr>fr_status := Accepted, fr_updated_at := now\<rparr>
               \<in> set (friend_requests (snd (acceptRequest uid now (fr_id r) d))) \<and>
             (fr_sender_id r, fr_receiver_id r) \<in> set (edges (snd (acceptRequest uid now (fr_id r) d))) \<and>
             (fr_receiver_id r, fr_sender_id r) \<in> set (edges (snd (acceptRequest uid now (fr_id r) d)))))"
proof -
  let ?ab = "[(fr_sender_id r, fr_receiver_id r), (fr_receiver_id r, fr_sender_id r)]"
  obtain d' where d': "acceptRequest (fr_receiver_id r) now (fr_id r) d =
                 (Toast_success ''Friend request accepted!'', d')"
    "friend_requests d' =
       map (\<lambda>x. if fr_id x = fr_id r then x\<lparr>fr_status := Accepted, fr_updated_at := now\<rparr> else x)
           (friend_requests d)"
    "edges d' = edges d @ filter (\<lambda>e. e \<notin> set (edges d)) (remdups ?ab)"
    "profiles d' = profiles d" "messages d' = messages d"
    using accept_by_receiver [OF assms] by blast
  have dist: "distinct (edges d')"
    unfolding d'(3) using assms(1)
    by (intro distinct_append_fresh) (simp add: constraints_def unique_keys_def)
  have "set (edges d') = set (edges d) \<union> set ?ab"
    unfolding d'(3) by (rule set_append_fresh)
  then have sets: "set (edges d') = set (edges d) \<union>
                {(fr_sender_id r, fr_receiver_id r), (fr_receiver_id r, fr_sender_id r)}"
    by simp
  have new: "r\<lparr>fr_status := Accepted, fr_updated_at := now\<rparr> \<in> set (friend_requests d')"
    unfolding d'(2) using assms(2) by (force simp: image_iff)
  have first: "\<exists>d'. acceptRequest (fr_receiver_id r) now (fr_id r) d =
                 (Toast_success ''Friend request accepted!'', d') \<and>
              friend_requests d' =
                map (\<lambda>x. if fr_id x = fr_id r
                         then x\<lparr>fr_status := Accepted, fr_updated_at := now\<rparr> else x)
                    (friend_requests d) \<and>
              edges d' = edges d @ filter (\<lambda>e. e \<notin> set (edges d)) (remdups ?ab) \<and>
              set (edges d') = set (edges d) \<union>
                {(fr_sender_id r, fr_receiver_id r), (fr_receiver_id r, fr_sender_id r)} \<and>
              distinct (edges d') \<and> profiles d' = profiles d \<and> messages d' = messages d"
    using d' dist sets by blast
  have second: "snd (acceptRequest uid now (fr_id r) d) = d \<or>
            (r\<lparr>fr_status := Accepted, fr_updated_at := now\<rparr>
               \<in> set (friend_requests (snd (acceptRequest uid now (fr_id r) d))) \<and>
             (fr_sender_id r, fr_receiver_id r) \<in> set (edges (snd (acceptRequest uid now (fr_id r) d))) \<and>
             (fr_receiver_id r, fr_sender_id r) \<in> set (edges (snd (acceptRequest uid now (fr_id r) d))))"
    for uid
  proof (cases "uid = fr_receiver_id r")
    case True
    then have "snd (acceptRequest uid now (fr_id r) d) = d'" using d'(1) by simp
    then show ?thesis using new sets by simp
  next
    case False
    then have "snd (acceptRequest uid now (fr_id r) d) = d"
      using accept_by_other [OF assms(1,2), of uid now Accepted]
      by (simp add: acceptRequest_def await_def)
    then show ?thesis by simp
  qed
  show ?thesis using first second by blast
qed

theorem accept_pending_request_witness:
  "constraints store_pending \<and> request_7 \<in> set (friend_requests store_pending) \<and>
   fr_status request_7 = Pending \<and>
   (\<exists>d'. acceptRequest 2 50 7 store_pending = (Toast_success ''Friend request accepted!'', d') \<and>
         edges d' = [(1, 2), (2, 1)] \<and>
         map fr_status (friend_requests d') = [Accepted]) \<and>
   constraints store_half_friends \<and> request_7 \<in> set (friend_requests store_half_friends) \<and>
   edges store_half_friends = [(1, 2)] \<and>
   (\<exists>d'. acceptRequest 2 50 7 store_half_friends =
           (Toast_success ''Friend request accepted!'', d') \<and>
         edges d' = [(1, 2), (2, 1)] \<and>
         map fr_status (friend_requests d') = [Accepted])"
proof -
  have c: "constraints store_pending"
    by (simp add: constraints_def primary_keys_def unique_keys_def foreign_keys_def edges_def
        profile_ids_def store_pending_def alice_def bob_def carol_def request_7_def)
  have r: "request_7 \<in> set (friend_requests store_pending)" by (simp add: store_pending_def)
  have p: "fr_status request_7 = Pending" by (simp add: request_7_def)
  have e: "edges store_pending = []" by (simp add: edges_def store_pending_def)
  have i: "fr_receiver_id request_7 = 2" "fr_sender_id request_7 = 1" "fr_id request_7 = 7"
    by (simp_all add: request_7_def)
  from accept_pending_request [OF c r p, of 50]
  have one: "\<exists>d'. acceptRequest 2 50 7 store_pending = (Toast_success ''Friend request accepted!'', d') \<and>
         edges d' = [(1, 2), (2, 1)] \<and> map fr_status (friend_requests d') = [Accepted]"
    unfolding i e by (auto simp: store_pending_def request_7_def)
  have c2: "constraints store_half_friends"
    by (simp add: constraints_def primary_keys_def unique_keys_def foreign_keys_def edges_def
        profile_ids_def store_half_friends_def alice_def bob_def carol_def request_7_def)
  have r2: "request_7 \<in> set (friend_requests store_half_friends)"
    by (simp add: store_half_friends_def)
  have e2: "edges store_half_friends = [(1, 2)]" by (simp add: edges_def store_half_friends_def)
  from accept_pending_request [OF c2 r2 p, of 50]
  have two: "\<exists>d'. acceptRequest 2 50 7 store_half_friends =
           (Toast_success ''Friend request accepted!'', d') \<and>
         edges d' = [(1, 2), (2, 1)] \<and> map fr_status (friend_requests d') = [Accepted]"
    unfolding i e2 by (auto simp: store_half_friends_def request_7_def)
  from c r p one c2 r2 e2 two show ?thesis by blast
qed

subsection \<open>Sending a friend request\<close>

lemma select_profiles_id_member:
  "select_profiles_id email d = [b] \<Longrightarrow> b \<in> set (profile_ids d)"
proof -
  assume a: "select_profiles_id email d = [b]"
  have "set (select_profiles_id email d) \<subseteq> set (profile_ids d)"
    by (auto simp: select_profiles_id_def profile_ids_def)
  with a show ?thesis by simp
qed

lemma insert_friend_requests_duplicate:
  assumes "requests_of a b d \<noteq> []"
  shows "insert_friend_requests a now a b st d = Inl Unique_violation"
proof -
  from assms obtain r where "r \<in> set (requests_of a b d)" by (cases "requests_of a b d") auto
  then have "\<exists>r \<in> set (friend_requests d). fr_sender_id r = a \<and> fr_receiver_id r = b"
    by (auto simp: requests_of_def)
  then show ?thesis
    by (simp add: insert_friend_requests_def policy_friend_requests_insert_def)
qed

lemma insert_friend_requests_fresh:
  assumes "requests_of a b d = []" "a \<in> set (profile_ids d)" "b \<in> set (profile_ids d)"
  shows "insert_friend_requests a now a b st d =
         Inr (d\<lparr>friend_requests := friend_requests d @
                [\<lparr>fr_id = gen_random_uuid (map fr_id (friend_requests d)),
                  fr_sender_id = a, fr_receiver_id = b, fr_status = st,
                  fr_created_at = now, fr_updated_at = now\<rparr>]\<rparr>)"
proof -
  have "\<not> (\<exists>r \<in> set (friend_requests d). fr_sender_id r = a \<and> fr_receiver_id r = b)"
    using assms(1) by (auto simp: requests_of_def filter_empty_conv)
  then show ?thesis using assms(2,3)
    by (simp add: insert_friend_requests_def policy_friend_requests_insert_def)
qed

lemma sendFriendRequest_duplicate:
  assumes "searchEmail s \<noteq> []" "select_profiles_id (searchEmail s) d = [b]" "a \<noteq> b"
    "requests_of a b d \<noteq> []"
  shows "sendFriendRequest a now s d =
         (Some (Toast_error ''Friend request already sent''), s\<lparr>searching := False\<rparr>, d)"
  using assms insert_friend_requests_duplicate [OF assms(4), of now Pending]
  by (simp add: sendFriendRequest_def await_def)

lemma sendFriendRequest_fresh:
  assumes "searchEmail s \<noteq> []" "select_profiles_id (searchEmail s) d = [b]" "a \<noteq> b"
    "requests_of a b d = []" "a \<in> set (profile_ids d)"
  shows "sendFriendRequest a now s d =
         (Some (Toast_success ''Friend request sent!''), s\<lparr>searchEmail := [], searching := False\<rparr>,
          d\<lparr>friend_requests := friend_requests d @
                [\<lparr>fr_id = gen_random_uuid (map fr_id (friend_requests d)),
                  fr_sender_id = a, fr_receiver_id = b, fr_status = Pending,
                  fr_created_at = now, fr_updated_at = now\<rparr>]\<rparr>)"
  using assms(1-3)
    insert_friend_requests_fresh [OF assms(4,5) select_profiles_id_member [OF assms(2)], of now Pending]
  by (simp add: sendFriendRequest_def await_def)

lemma requests_of_unique:
  assumes "unique_keys d"
  shows "length (requests_of a b d) \<le> 1"
proof -
  let ?key = "\<lambda>r. (fr_sender_id r, fr_receiver_id r)"
  have "distinct (map ?key (friend_requests d))"
    using assms by (simp add: unique_keys_def)
  then have dist: "distinct (map ?key (requests_of a b d))"
    unfolding requests_of_def by (rule distinct_map_filter)
  have key: "\<And>r. r \<in> set (requests_of a b d) \<Longrightarrow> ?key r = (a, b)"
    by (simp add: requests_of_def)
  show ?thesis
  proof (cases "requests_of a b d")
    case Nil
    then show ?thesis by simp
  next
    case (Cons x xs)
    show ?thesis
    proof (cases xs)
      case Nil
      with Cons show ?thesis by simp
    next
      case (Cons y ys)
      with \<open>requests_of a b d = x # xs\<close> have "?key x = (a, b)" "?key y = (a, b)"
        using key by simp_all
      with dist \<open>requests_of a b d = x # xs\<close> Cons show ?thesis by simp
    qed
  qed
qed

text \<open>
  C2. For accounts A and B with A \<noteq> B, where A has a profile and the typed email resolves
  to B alone: sending the request twice in a row leaves exactly one request row for the
  ordered pair (A,B); the second call changes nothing and reports the unique violation as
  "Friend request already sent". When no request of the pair existed before, the first call
  succeeds and that one row is the pending request it inserted.
\<close>

theorem send_twice:
  assumes "constraints d" "a \<noteq> b" "a \<in> set (profile_ids d)"
    "email \<noteq> []" "select_profiles_id email d = [b]" "searchEmail s = email"
  shows "(case sendFriendRequest a now1 s d of (t1, s1, d1) \<Rightarrow>
           case sendFriendRequest a now2 (s1\<lparr>searchEmail := email\<rparr>) d1 of (t2, s2, d2) \<Rightarrow>
             t2 = Some (Toast_error ''Friend request already sent'') \<and> d2 = d1 \<and>
             length (requests_of a b d2) = 1 \<and>
             (requests_of a b d = [] \<longrightarrow>
                t1 = Some (Toast_success ''Friend request sent!'') \<and>
                friend_requests d2 = friend_requests d @
                  [\<lparr>fr_id = gen_random_uuid (map fr_id (friend_requests d)),
                    fr_sender_id = a, fr_receiver_id = b, fr_status = Pending,
                    fr_created_at = now1, fr_updated_at = now1\<rparr>] \<and>
                list_all (\<lambda>r. fr_status r = Pending) (requests_of a b d2)))"
proof (cases "requests_of a b d = []")
  case True
  let ?new = "\<lparr>fr_id = gen_random_uuid (map fr_id (friend_requests d)),
                    fr_sender_id = a, fr_receiver_id = b, fr_status = Pending,
                    fr_created_at = now1, fr_updated_at = now1\<rparr>"
  let ?d1 = "d\<lparr>friend_requests := friend_requests d @ [?new]\<rparr>"
  let ?s1 = "s\<lparr>searchEmail := [], searching := False\<rparr>"
  have one: "sendFriendRequest a now1 s d = (Some (Toast_success ''Friend request sent!''), ?s1, ?d1)"
    using sendFriendRequest_fresh [of s d b a now1] assms True by simp
  have r1: "requests_of a b ?d1 = [?new]"
    using True by (simp add: requests_of_def)
  have sel: "select_profiles_id email ?d1 = [b]"
    using assms(5) by (simp add: select_profiles_id_def)
  have two: "sendFriendRequest a now2 s' ?d1 =
        (Some (Toast_error ''Friend request already sent''), s'\<lparr>searching := False\<rparr>, ?d1)"
    if "searchEmail s' = email" for s'
    using sendFriendRequest_duplicate [of s' ?d1 b a now2] assms(2,4) sel r1 that by simp
  show ?thesis using r1 True by (simp add: one two)
next
  case False
  have one: "sendFriendRequest a now1 s d =
        (Some (Toast_error ''Friend request already sent''), s\<lparr>searching := False\<rparr>, d)"
    using sendFriendRequest_duplicate [of s d b a now1] assms False by simp
  have two: "sendFriendRequest a now2 s' d =
        (Some (Toast_error ''Friend request already sent''), s'\<lparr>searching := False\<rparr>, d)"
    if "searchEmail s' = email" for s'
    using sendFriendRequest_duplicate [of s' d b a now2] assms False that by simp
  have "length (requests_of a b d) \<le> 1"
    using assms(1) by (intro requests_of_unique) (simp add: constraints_def)
  moreover have "length (requests_of a b d) \<noteq> 0" using False by simp
  ultimately have "length (requests_of a b d) = 1" by linarith
  then show ?thesis using False by (simp add: one two)
qed

theorem send_twice_witness:
  "constraints store_fresh \<and> (1::nat) \<noteq> 2 \<and> 1 \<in> set (profile_ids store_fresh) \<and>
   ''bob@x.com'' \<noteq> [] \<and> select_profiles_id ''bob@x.com'' store_fresh = [2] \<and>
   requests_of 1 2 store_fresh = [] \<and>
   (case sendFriendRequest 1 20 \<lparr>searchEmail = ''bob@x.com'', searching = False\<rparr> store_fresh of
      (t1, s1, d1) \<Rightarrow>
        case sendFriendRequest 1 21 (s1\<lparr>searchEmail := ''bob@x.com''\<rparr>) d1 of
          (t2, s2, d2) \<Rightarrow>
            t1 = Some (Toast_success ''Friend request sent!'') \<and>
            t2 = Some (Toast_error ''Friend request already sent'') \<and>
            length (requests_of 1 2 d2) = 1 \<and>
            list_all (\<lambda>r. fr_status r = Pending) (requests_of 1 2 d2))"
proof -
  have c: "constraints store_fresh"
    by (simp add: constraints_def primary_keys_def unique_keys_def foreign_keys_def edges_def
        profile_ids_def store_fresh_def alice_def bob_def carol_def)
  have n: "(1::nat) \<noteq> 2" by simp
  have p: "1 \<in> set (profile_ids store_fresh)"
    by (simp add: profile_ids_def store_fresh_def alice_def)
  have e: "''bob@x.com'' \<noteq> []" by simp
  have r: "select_profiles_id ''bob@x.com'' store_fresh = [2]"
    by (simp add: select_profiles_id_def store_fresh_def alice_def bob_def carol_def)
  have q: "requests_of 1 2 store_fresh = []" by (simp add: requests_of_def store_fresh_def)
  have s: "searchEmail \<lparr>searchEmail = ''bob@x.com'', searching = False\<rparr> = ''bob@x.com''" by simp
  from send_twice [OF c n p e r s, of 20 21] q
  have "case sendFriendRequest 1 20 \<lparr>searchEmail = ''bob@x.com'', searching = False\<rparr> store_fresh of
      (t1, s1, d1) \<Rightarrow>
        case sendFriendRequest 1 21 (s1\<lparr>searchEmail := ''bob@x.com''\<rparr>) d1 of
          (t2, s2, d2) \<Rightarrow>
            t1 = Some (Toast_success ''Friend request sent!'') \<and>
            t2 = Some (Toast_error ''Friend request already sent'') \<and>
            length (requests_of 1 2 d2) = 1 \<and>
            list_all (\<lambda>r. fr_status r = Pending) (requests_of 1 2 d2)"
    by (auto split: prod.splits)
  with c n p e r q show ?thesis by blast
qed

subsection \<open>Loading a conversation\<close>

lemma eval_conversation_filter:
  "eval_filter (conversation_filter a b) m \<longleftrightarrow> conversation a b m"
  by (auto simp: conversation_filter_def conversation_def doubleton_eq_iff)

lemma select_messages_conversation:
  "select_messages a (conversation_filter a b) d =
   sort_key m_created_at (filter (conversation a b) (messages d))"
proof -
  have "(\<lambda>m. policy_messages_select a m \<and> eval_filter (conversation_filter a b) m) = conversation a b"
    by (auto simp: eval_conversation_filter policy_messages_select_def conversation_def
        doubleton_eq_iff)
  then show ?thesis by (simp add: select_messages_def)
qed

lemma unread_ids_set:
  "set (map m_id (filter (\<lambda>m. m_receiver_id m = a \<and> \<not> m_read m)
             (sort_key m_created_at (filter (conversation a b) ms)))) =
   m_id ` {x \<in> set ms. conversation a b x \<and> m_receiver_id x = a \<and> \<not> m_read x}"
  by auto

lemma distinct_key_eq:
  "distinct (map f xs) \<Longrightarrow> x \<in> set xs \<Longrightarrow> y \<in> set xs \<Longrightarrow> f x = f y \<Longrightarrow> x = y"
  by (auto simp: distinct_map dest: inj_onD)

lemma unread_ids_member:
  assumes "distinct (map m_id ms)" "m \<in> set ms"
  shows "m_id m \<in> set (map m_id (filter (\<lambda>m. m_receiver_id m = a \<and> \<not> m_read m)
             (sort_key m_created_at (filter (conversation a b) ms)))) \<longleftrightarrow>
         conversation a b m \<and> m_receiver_id m = a \<and> \<not> m_read m"
  (is "?L \<longleftrightarrow> ?R")
proof
  assume ?L
  then have "m_id m \<in> m_id ` {x \<in> set ms. conversation a b x \<and> m_receiver_id x = a \<and> \<not> m_read x}"
    by (simp only: unread_ids_set)
  then obtain x where mem: "x \<in> {x \<in> set ms. conversation a b x \<and> m_receiver_id x = a \<and> \<not> m_read x}"
    and same: "m_id m = m_id x"
    by (rule imageE)
  from mem same have x: "x \<in> set ms" "conversation a b x" "m_receiver_id x = a"
      "\<not> m_read x" "m_id x = m_id m"
    by simp_all
  have "x = m" by (rule distinct_key_eq [OF assms(1) x(1) assms(2) x(5)])
  with x(2-4) show ?R by simp
next
  assume ?R
  with assms(2)
  have "m \<in> {x \<in> set ms. conversation a b x \<and> m_receiver_id x = a \<and> \<not> m_read x}"
    by simp
  then have "m_id m \<in> m_id ` {x \<in> set ms. conversation a b x \<and> m_receiver_id x = a \<and> \<not> m_read x}"
    by (rule imageI)
  then show ?L by (simp only: unread_ids_set)
qed

lemma in_unread_ids:
  assumes "distinct (map m_id ms)" "m \<in> set ms"
  shows "in_ids (map m_id (filter (\<lambda>m. m_receiver_id m = a \<and> \<not> m_read m)
                       (sort_key m_created_at (filter (conversation a b) ms)))) m
       \<longleftrightarrow> conversation a b m \<and> m_receiver_id m = a \<and> \<not> m_read m"
  using unread_ids_member [OF assms, of a b] by (simp only: in_ids_def)


lemma mark_read_row_read:
  assumes "m_read m"
  shows "(if policy_messages_update a m \<and>
            in_ids (map m_id (filter (\<lambda>m. m_receiver_id m = a \<and> \<not> m_read m)
                       (sort_key m_created_at (filter (conversation a b) ms)))) m
         then m\<lparr>m_read := True\<rparr> else m) =
        (if conversation a b m \<and> m_receiver_id m = a then m\<lparr>m_read := True\<rparr> else m)"
  using assms by simp


lemma mark_read_row_unread:
  assumes "distinct (map m_id ms)" "m \<in> set ms" "\<not> m_read m"
  shows "(if policy_messages_update a m \<and>
            in_ids (map m_id (filter (\<lambda>m. m_receiver_id m = a \<and> \<not> m_read m)
                       (sort_key m_created_at (filter (conversation a b) ms)))) m
         then m\<lparr>m_read := True\<rparr> else m) =
        (if conversation a b m \<and> m_receiver_id m = a then m\<lparr>m_read := True\<rparr> else m)"
proof -
  have "(policy_messages_update a m \<and>
            in_ids (map m_id (filter (\<lambda>m. m_receiver_id m = a \<and> \<not> m_read m)
                       (sort_key m_created_at (filter (conversation a b) ms)))) m)
        \<longleftrightarrow> (a = m_receiver_id m \<and> conversation a b m \<and> m_receiver_id m = a \<and> \<not> m_read m)"
    by (simp only: in_unread_ids [OF assms(1,2), of a b] policy_messages_update_def)
  also have "\<dots> \<longleftrightarrow> (conversation a b m \<and> m_receiver_id m = a)"
    using assms(3) by blast
  finally show ?thesis by (simp only:)
qed


lemma mark_read_rows:
  assumes "distinct (map m_id ms)"
  shows "map (\<lambda>m. if policy_messages_update a m \<and>
                     in_ids (map m_id (filter (\<lambda>m. m_receiver_id m = a \<and> \<not> m_read m)
                       (sort_key m_created_at (filter (conversation a b) ms)))) m
                  then m\<lparr>m_read := True\<rparr> else m) ms =
         map (\<lambda>m. if conversation a b m \<and> m_receiver_id m = a then m\<lparr>m_read := True\<rparr> else m) ms"
proof (rule map_cong [OF refl])
  fix m assume m: "m \<in> set ms"
  show "(if policy_messages_update a m \<and>
            in_ids (map m_id (filter (\<lambda>m. m_receiver_id m = a \<and> \<not> m_read m)
                       (sort_key m_created_at (filter (conversation a b) ms)))) m
         then m\<lparr>m_read := True\<rparr> else m) =
        (if conversation a b m \<and> m_receiver_id m = a then m\<lparr>m_read := True\<rparr> else m)"
  proof (cases "m_read m")
    case True
    then show ?thesis by (rule mark_read_row_read)
  next
    case False
    with assms m show ?thesis by (rule mark_read_row_unread)
  qed
qed

lemma mark_read_none:
  assumes "distinct (map m_id ms)"
    and "map m_id (filter (\<lambda>m. m_receiver_id m = a \<and> \<not> m_read m)
           (sort_key m_created_at (filter (conversation a b) ms))) = []"
  shows "map (\<lambda>m. if conversation a b m \<and> m_receiver_id m = a then m\<lparr>m_read := True\<rparr> else m) ms = ms"
proof (rule map_idI)
  fix m assume m: "m \<in> set ms"
  have nin: "m_id m \<notin> set (map m_id (filter (\<lambda>m. m_receiver_id m = a \<and> \<not> m_read m)
           (sort_key m_created_at (filter (conversation a b) ms))))"
    by (simp only: assms(2) list.set empty_iff not_False_eq_True)
  have no: "\<not> (conversation a b m \<and> m_receiver_id m = a \<and> \<not> m_read m)"
  proof
    assume "conversation a b m \<and> m_receiver_id m = a \<and> \<not> m_read m"
    then have "m_id m \<in> set (map m_id (filter (\<lambda>m. m_receiver_id m = a \<and> \<not> m_read m)
           (sort_key m_created_at (filter (conversation a b) ms))))"
      by (rule iffD2 [OF unread_ids_member [OF assms(1) m]])
    with nin show False by (rule notE)
  qed
  show "(if conversation a b m \<and> m_receiver_id m = a then m\<lparr>m_read := True\<rparr> else m) = m"
  proof (cases "m_read m")
    case True
    then show ?thesis by simp
  next
    case False
    with no have "\<not> (conversation a b m \<and> m_receiver_id m = a)" by blast
    then show ?thesis by (simp only: if_False)
  qed
qed

lemma loadMessages_eq:
  assumes "distinct (map m_id (messages d))"
  shows "loadMessages a friend c d =
    (c\<lparr>messages_state := sort_key m_created_at (filter (conversation a (p_id friend)) (messages d))\<rparr>,
     d\<lparr>messages := map (\<lambda>m. if conversation a (p_id friend) m \<and> m_receiver_id m = a
                              then m\<lparr>m_read := True\<rparr> else m) (messages d)\<rparr>)"
proof -
  let ?data = "sort_key m_created_at (filter (conversation a (p_id friend)) (messages d))"
  let ?ids = "map m_id (filter (\<lambda>m. m_receiver_id m = a \<and> \<not> m_read m) ?data)"
  let ?mark = "map (\<lambda>m. if conversation a (p_id friend) m \<and> m_receiver_id m = a
                              then m\<lparr>m_read := True\<rparr> else m) (messages d)"
  have upd: "update_messages a True (in_ids ?ids) d = d\<lparr>messages := ?mark\<rparr>"
    by (simp only: update_messages_def mark_read_rows [OF assms, of a "p_id friend"])
  have L: "loadMessages a friend c d =
           (if 0 < length ?ids then (c\<lparr>messages_state := ?data\<rparr>, update_messages a True (in_ids ?ids) d)
            else (c\<lparr>messages_state := ?data\<rparr>, d))"
    by (simp only: loadMessages_def await_def select_messages_conversation Let_def)
  show ?thesis
  proof (cases "?ids = []")
    case True
    have "?mark = messages d" using assms True by (rule mark_read_none)
    then have E: "d\<lparr>messages := ?mark\<rparr> = d" by simp
    have "\<not> 0 < length ?ids" by (simp only: True list.size less_irrefl not_False_eq_True)
    then show ?thesis by (simp only: L E if_False)
  next
    case False
    then have "0 < length ?ids" by (simp only: length_greater_0_conv not_False_eq_True)
    then show ?thesis by (simp only: L upd if_True)
  qed
qed

text \<open>
  C3, as the code has it. On a store with unique message ids, \<open>loadMessages\<close> for user A
  and friend B returns exactly the messages of the unordered pair {A,B}, in ascending order
  of \<^verbatim>\<open>created_at\<close>, each as it was in the store before the call: the list is set from
  the fetched data before the update is sent. Its single update statement sets the read flag
  of A's inbound messages of that conversation and changes nothing else in the store, so the
  store row of every returned message addressed to A has \<open>read = true\<close> afterwards.
\<close>

theorem loadMessages_conversation:
  assumes "primary_keys d"
  shows "case loadMessages a friend c d of (c', d') \<Rightarrow>
           mset (messages_state c') = filter_mset (conversation a (p_id friend)) (mset (messages d)) \<and>
           sorted (map m_created_at (messages_state c')) \<and>
           list_all (\<lambda>m. m \<in> set (messages d)) (messages_state c') \<and>
           messages d' = map (\<lambda>m. if conversation a (p_id friend) m \<and> m_receiver_id m = a
                                   then m\<lparr>m_read := True\<rparr> else m) (messages d) \<and>
           list_all (\<lambda>m. m_receiver_id m = a \<longrightarrow> m\<lparr>m_read := True\<rparr> \<in> set (messages d'))
             (messages_state c') \<and>
           profiles d' = profiles d \<and> friend_requests d' = friend_requests d \<and>
           friendships d' = friendships d"
proof -
  let ?data = "sort_key m_created_at (filter (conversation a (p_id friend)) (messages d))"
  let ?f = "\<lambda>m. if conversation a (p_id friend) m \<and> m_receiver_id m = a
                 then m\<lparr>m_read := True\<rparr> else m"
  have pk: "distinct (map m_id (messages d))" using assms by (simp add: primary_keys_def)
  note eq = loadMessages_eq [OF pk, of a friend c]
  have 1: "mset ?data = filter_mset (conversation a (p_id friend)) (mset (messages d))"
    by simp
  have 2: "sorted (map m_created_at ?data)" by simp
  have 3: "list_all (\<lambda>m. m \<in> set (messages d)) ?data" by (simp add: list_all_iff)
  have 4: "list_all (\<lambda>m. m_receiver_id m = a \<longrightarrow> m\<lparr>m_read := True\<rparr> \<in> set (map ?f (messages d))) ?data"
    unfolding list_all_iff
  proof (intro ballI impI)
    fix m assume "m \<in> set ?data" and r: "m_receiver_id m = a"
    then have m: "m \<in> set (messages d)" and c: "conversation a (p_id friend) m" by simp_all
    from c r have "?f m = m\<lparr>m_read := True\<rparr>" by simp
    moreover from m have "?f m \<in> ?f ` set (messages d)" by (rule imageI)
    then have "?f m \<in> set (map ?f (messages d))" by (simp only: set_map)
    ultimately show "m\<lparr>m_read := True\<rparr> \<in> set (map ?f (messages d))" by (simp only:)
  qed
  show ?thesis
    unfolding eq using 1 2 3 4 by simp
qed

theorem loadMessages_conversation_witness:
  "primary_keys store_chat \<and>
   (case loadMessages 2 alice chat_idle store_chat of (c', d') \<Rightarrow>
      mset (messages_state c') = {#message_41, message_42#} \<and>
      sorted (map m_created_at (messages_state c')) \<and>
      messages d' = [message_41\<lparr>m_read := True\<rparr>, message_42, message_43])"
proof -
  have pk: "primary_keys store_chat"
    by (simp add: primary_keys_def store_chat_def alice_def bob_def carol_def
        message_41_def message_42_def message_43_def)
  have conv: "conversation 2 (p_id alice) message_41" "conversation 2 (p_id alice) message_42"
    "\<not> conversation 2 (p_id alice) message_43"
    by (simp_all add: conversation_def doubleton_eq_iff alice_def
        message_41_def message_42_def message_43_def)
  have recv: "m_receiver_id message_41 = 2" "m_receiver_id message_42 \<noteq> 2"
    by (simp_all add: message_41_def message_42_def)
  have ms: "messages store_chat = [message_41, message_42, message_43]"
    by (simp add: store_chat_def)
  from loadMessages_conversation [OF pk, of 2 alice chat_idle]
  have "case loadMessages 2 alice chat_idle store_chat of (c', d') \<Rightarrow>
      mset (messages_state c') = {#message_41, message_42#} \<and>
      sorted (map m_created_at (messages_state c')) \<and>
      messages d' = [message_41\<lparr>m_read := True\<rparr>, message_42, message_43]"
    unfolding ms by (simp add: conv recv split: prod.splits)
  with pk show ?thesis by (rule conjI)
qed

text \<open>
  Bob loads his conversation with Alice. Message 41, from Alice to Bob and unread, is in the
  returned list with \<open>read = false\<close>, while its row in the store now has \<open>read = true\<close>.
\<close>

theorem loadMessages_returned_flag_counterexample:
  "map m_id (messages_state (fst (loadMessages 2 alice chat_idle store_chat))) = [42, 41] \<and>
   map m_receiver_id (messages_state (fst (loadMessages 2 alice chat_idle store_chat))) = [1, 2] \<and>
   map m_read (messages_state (fst (loadMessages 2 alice chat_idle store_chat))) = [False, False] \<and>
   map m_id (messages (snd (loadMessages 2 alice chat_idle store_chat))) = [41, 42, 43] \<and>
   map m_read (messages (snd (loadMessages 2 alice chat_idle store_chat))) = [True, False, False]"
  by code_simp

subsection \<open>Accepting without a pending request or as another user\<close>

lemma update_friend_requests_other:
  assumes "distinct (map fr_id (friend_requests d))" "r \<in> set (friend_requests d)"
    "uid \<noteq> fr_receiver_id r"
  shows "update_friend_requests uid now st (fr_id r) d = Inr d"
proof (rule update_friend_requests_miss, rule ballI)
  fix x assume x: "x \<in> set (friend_requests d)"
  show "\<not> (fr_receiver_id x = uid \<and> fr_id x = fr_id r)"
  proof
    assume a: "fr_receiver_id x = uid \<and> fr_id x = fr_id r"
    then have "x = r" using distinct_key_eq [OF assms(1) x assms(2)] by simp
    with a assms(3) show False by simp
  qed
qed

lemma update_friend_requests_no_trigger:
  assumes "distinct (map fr_id (friend_requests d))" "r \<in> set (friend_requests d)"
    "st \<noteq> Accepted \<or> fr_status r \<noteq> Pending"
  shows "update_friend_requests (fr_receiver_id r) now st (fr_id r) d =
         Inr (d\<lparr>friend_requests :=
                map (\<lambda>x. if fr_id x = fr_id r then x\<lparr>fr_status := st, fr_updated_at := now\<rparr> else x)
                    (friend_requests d)\<rparr>)"
  unfolding update_friend_requests_hit [OF assms(2,1)]
  using assms(3) by (auto simp: on_friend_request_accepted_def)

lemma accept_not_pending:
  assumes "distinct (map fr_id (friend_requests d))" "r \<in> set (friend_requests d)"
    "fr_status r \<noteq> Pending"
  shows "fst (acceptRequest uid now (fr_id r) d) = Toast_success ''Friend request accepted!'' \<and>
         friendships (snd (acceptRequest uid now (fr_id r) d)) = friendships d"
proof (cases "uid = fr_receiver_id r")
  case True
  show ?thesis
    unfolding True acceptRequest_def await_def
      update_friend_requests_no_trigger [OF assms(1,2) disjI2 [OF assms(3)]]
    by simp
next
  case False
  show ?thesis
    unfolding acceptRequest_def await_def
      update_friend_requests_other [OF assms(1,2) False]
    by simp
qed

text \<open>
  C4, as the code has it. \<open>acceptRequest\<close> has no actor or state check of its own: called
  by anyone but the request's receiver it leaves the store as it is, and on a request that is
  not pending it creates no friendship edge; both calls report success. In particular a
  request that was rejected gets no edges from a later accept.
\<close>

theorem accept_without_checks:
  assumes "primary_keys d" "r \<in> set (friend_requests d)"
  shows "(uid \<noteq> fr_receiver_id r \<longrightarrow>
            acceptRequest uid now (fr_id r) d = (Toast_success ''Friend request accepted!'', d)) \<and>
         (fr_status r \<noteq> Pending \<longrightarrow>
            fst (acceptRequest uid now (fr_id r) d) = Toast_success ''Friend request accepted!'' \<and>
            friendships (snd (acceptRequest uid now (fr_id r) d)) = friendships d) \<and>
         (case rejectRequest (fr_receiver_id r) now (fr_id r) d of (t1, d1) \<Rightarrow>
            t1 = Toast_success ''Friend request rejected'' \<and>
            friend_requests d1 =
              map (\<lambda>x. if fr_id x = fr_id r
                       then x\<lparr>fr_status := Rejected, fr_updated_at := now\<rparr> else x)
                  (friend_requests d) \<and>
            friendships d1 = friendships d \<and>
            friendships (snd (acceptRequest uid' now' (fr_id r) d1)) = friendships d)"
proof -
  have pk: "distinct (map fr_id (friend_requests d))"
    using assms(1) by (simp add: primary_keys_def)
  let ?rej = "\<lambda>x. if fr_id x = fr_id r then x\<lparr>fr_status := Rejected, fr_updated_at := now\<rparr> else x"
  let ?d1 = "d\<lparr>friend_requests := map ?rej (friend_requests d)\<rparr>"
  let ?r1 = "r\<lparr>fr_status := Rejected, fr_updated_at := now\<rparr>"
  have one: "acceptRequest uid now (fr_id r) d = (Toast_success ''Friend request accepted!'', d)"
    if "uid \<noteq> fr_receiver_id r"
    unfolding acceptRequest_def await_def update_friend_requests_other [OF pk assms(2) that]
    by simp
  have two: "fst (acceptRequest uid now (fr_id r) d) = Toast_success ''Friend request accepted!'' \<and>
            friendships (snd (acceptRequest uid now (fr_id r) d)) = friendships d"
    if "fr_status r \<noteq> Pending"
    using pk assms(2) that by (rule accept_not_pending)
  have rej: "rejectRequest (fr_receiver_id r) now (fr_id r) d =
             (Toast_success ''Friend request rejected'', ?d1)"
    unfolding rejectRequest_def await_def
      update_friend_requests_no_trigger [OF pk assms(2) disjI1, of Rejected now, simplified]
    by simp
  have ids1: "map fr_id (friend_requests ?d1) = map fr_id (friend_requests d)"
    by (simp add: comp_def cong: if_cong)
  have pk1: "distinct (map fr_id (friend_requests ?d1))"
    unfolding ids1 by (rule pk)
  have "?rej r \<in> ?rej ` set (friend_requests d)" using assms(2) by (rule imageI)
  then have in1: "?r1 \<in> set (friend_requests ?d1)" by simp
  have st1: "fr_status ?r1 \<noteq> Pending" by simp
  have id1: "fr_id ?r1 = fr_id r" by simp
  have "friendships (snd (acceptRequest uid' now' (fr_id ?r1) ?d1)) = friendships ?d1"
    using accept_not_pending [OF pk1 in1 st1, of uid' now'] by (rule conjunct2)
  then have three: "friendships (snd (acceptRequest uid' now' (fr_id r) ?d1)) = friendships d"
    unfolding id1 by simp
  show ?thesis
    unfolding rej using one two three by simp
qed

theorem accept_without_checks_witness:
  "primary_keys store_pending \<and> request_7 \<in> set (friend_requests store_pending) \<and>
   (1::nat) \<noteq> fr_receiver_id request_7 \<and>
   acceptRequest 1 60 7 store_pending = (Toast_success ''Friend request accepted!'', store_pending) \<and>
   friendships (snd (acceptRequest 2 70 7 (snd (rejectRequest 2 60 7 store_pending)))) = [] \<and>
   primary_keys store_rejected \<and> request_8 \<in> set (friend_requests store_rejected) \<and>
   fr_status request_8 \<noteq> Pending \<and>
   fst (acceptRequest 2 60 8 store_rejected) = Toast_success ''Friend request accepted!'' \<and>
   friendships (snd (acceptRequest 2 60 8 store_rejected)) = []"
proof -
  have pk: "primary_keys store_pending"
    by (simp add: primary_keys_def store_pending_def alice_def bob_def carol_def request_7_def)
  have r: "request_7 \<in> set (friend_requests store_pending)" by (simp add: store_pending_def)
  have i: "fr_receiver_id request_7 = 2" "fr_id request_7 = 7" by (simp_all add: request_7_def)
  have f: "friendships store_pending = []" by (simp add: store_pending_def)
  have n: "(1::nat) \<noteq> fr_receiver_id request_7" unfolding i by simp
  from accept_without_checks [OF pk r, where uid = 1 and now = 60 and uid' = 2 and now' = 70] n
  have one: "acceptRequest 1 60 7 store_pending = (Toast_success ''Friend request accepted!'', store_pending) \<and>
   friendships (snd (acceptRequest 2 70 7 (snd (rejectRequest 2 60 7 store_pending)))) = []"
    unfolding i f by (simp split: prod.splits)
  have pk8: "primary_keys store_rejected"
    by (simp add: primary_keys_def store_rejected_def alice_def bob_def carol_def request_8_def)
  have r8: "request_8 \<in> set (friend_requests store_rejected)" by (simp add: store_rejected_def)
  have i8: "fr_id request_8 = 8" by (simp add: request_8_def)
  have f8: "friendships store_rejected = []" by (simp add: store_rejected_def)
  have n8: "fr_status request_8 \<noteq> Pending" by (simp add: request_8_def)
  from accept_without_checks [OF pk8 r8, where uid = 2 and now = 60] n8
  have two: "fst (acceptRequest 2 60 8 store_rejected) = Toast_success ''Friend request accepted!'' \<and>
   friendships (snd (acceptRequest 2 60 8 store_rejected)) = []"
    unfolding i8 f8 by simp
  from pk r n one pk8 r8 n8 two show ?thesis by blast
qed

text \<open>
  Bob rejects request 7 and then accepts it: the call reports success and the row reads
  accepted. Alice, the sender, accepts request 7: the call reports success as well.
\<close>

theorem accept_after_reject_counterexample:
  "fst (acceptRequest 2 70 7 (snd (rejectRequest 2 60 7 store_pending))) =
     Toast_success ''Friend request accepted!'' \<and>
   map fr_status (friend_requests (snd (acceptRequest 2 70 7 (snd (rejectRequest 2 60 7 store_pending))))) =
     [Accepted] \<and>
   fst (acceptRequest 1 70 7 store_pending) = Toast_success ''Friend request accepted!''"
  by (simp add: acceptRequest_def rejectRequest_def await_def update_friend_requests_def
      policy_friend_requests_update_def update_updated_at_column_def
      on_friend_request_accepted_def store_pending_def request_7_def)

subsection \<open>Live deliveries\<close>

lemma on_insert_state:
  "messages_state (fst (on_insert uid p c d)) = messages_state c @ [p]"
  by (simp add: on_insert_def Let_def)

lemma on_insert_store: "snd (on_insert uid p c d) = d"
  by (simp add: on_insert_def unawaited_def Let_def)

lemma on_inserts_state:
  "messages_state (fst (on_inserts uid ps c d)) = messages_state c @ ps"
proof (induction ps arbitrary: c d)
  case Nil
  show ?case by simp
next
  case (Cons p ps)
  obtain c' d' where step: "on_insert uid p c d = (c', d')" by (cases "on_insert uid p c d")
  then have "messages_state c' = messages_state c @ [p]"
    using on_insert_state [of uid p c d] by simp
  with Cons.IH [of c' d'] step show ?case by simp
qed

lemma sendMessage_state:
  "messages_state (fst (snd (sendMessage uid friend now c d))) = messages_state c"
  by (simp add: sendMessage_def split: option.splits sum.splits)

text \<open>
  C5, as the code has it. The channel's callback appends every payload it is handed: after
  a sequence of deliveries the local list is the old list followed by the payloads in order,
  so the entries with a given id grow by the number of deliveries carrying it. A payload
  whose id the list does not hold yet has exactly one entry after one delivery. Sending
  adds nothing to the local list, so a sent message appears only through its delivery.
\<close>

theorem live_deliveries_append:
  "messages_state (fst (on_inserts uid ps c d)) = messages_state c @ ps \<and>
   entries i (messages_state (fst (on_inserts uid ps c d))) =
     entries i (messages_state c) + entries i ps \<and>
   (entries (m_id p) (messages_state c) = 0 \<longrightarrow>
      entries (m_id p) (messages_state (fst (on_insert uid p c d))) = 1) \<and>
   messages_state (fst (snd (sendMessage uid friend now c d))) = messages_state c"
  by (simp add: on_inserts_state on_insert_state sendMessage_state entries_def)

theorem live_deliveries_append_witness:
  "entries (m_id message_41) (messages_state chat_idle) = 0 \<and>
   entries (m_id message_41) (messages_state (fst (on_insert 2 message_41 chat_idle store_chat))) = 1 \<and>
   messages_state (fst (on_inserts 2 [message_42, message_41] chat_idle store_chat)) =
     [message_42, message_41]"
proof -
  have z: "entries (m_id message_41) (messages_state chat_idle) = 0"
    by (simp add: entries_def chat_idle_def)
  from live_deliveries_append [of 2 "[message_42, message_41]" chat_idle store_chat "m_id message_41"
      message_41 None 0]
    live_deliveries_append [of 2 "[]" chat_idle store_chat "m_id message_41" message_41 None 0] z
  show ?thesis by (simp add: chat_idle_def)
qed

text \<open>Message 41 delivered twice is listed twice.\<close>

theorem redelivery_counterexample:
  "entries 41 (messages_state (fst (on_inserts 2 [message_41, message_41] chat_idle store_chat))) = 2"
  by (simp add: on_insert_def unawaited_def Let_def entries_def chat_idle_def message_41_def)



subsection \<open>Sending a message\<close>

lemma insert_messages_ok:
  assumes "text_error content = None" "uid \<in> set (profile_ids d)" "rcv \<in> set (profile_ids d)"
  shows "insert_messages uid now uid rcv content d =
         Inr (d\<lparr>messages := messages d @
               [\<lparr>m_id = gen_random_uuid (map m_id (messages d)), m_sender_id = uid,
                 m_receiver_id = rcv, m_content = content, m_read = False,
                 m_created_at = now\<rparr>]\<rparr>)"
  using assms by (simp add: insert_messages_def policy_messages_insert_def)

lemma insert_messages_refused:
  "text_error content = Some e \<Longrightarrow> insert_messages uid now sender rcv content d = Inl e"
  by (simp add: insert_messages_def)

lemma insert_messages_cases:
  "(\<exists>e. insert_messages uid now uid rcv content d = Inl e) \<or>
   insert_messages uid now uid rcv content d =
         Inr (d\<lparr>messages := messages d @
               [\<lparr>m_id = gen_random_uuid (map m_id (messages d)), m_sender_id = uid,
                 m_receiver_id = rcv, m_content = content, m_read = False,
                 m_created_at = now\<rparr>]\<rparr>)"
  by (simp add: insert_messages_def policy_messages_insert_def split: option.splits)

lemma sendMessage_blank:
  "trim (newMessage c) = [] \<Longrightarrow> sendMessage uid friend now c d = (None, c, d)"
  by (simp add: sendMessage_def split: option.splits)

lemma sendMessage_sent:
  assumes "trim (newMessage c) \<noteq> []" "\<not> sending c" "text_error (trim (newMessage c)) = None"
    "uid \<in> set (profile_ids d)" "p_id f \<in> set (profile_ids d)"
  shows "sendMessage uid (Some f) now c d =
        (None, c\<lparr>newMessage := [], sending := False\<rparr>,
         d\<lparr>messages := messages d @
              [\<lparr>m_id = gen_random_uuid (map m_id (messages d)), m_sender_id = uid,
                m_receiver_id = p_id f, m_content = trim (newMessage c), m_read = False,
                m_created_at = now\<rparr>]\<rparr>)"
  using assms(1,2) by (simp add: sendMessage_def await_def insert_messages_ok [OF assms(3,4,5)])

lemma sendMessage_refused:
  assumes "trim (newMessage c) \<noteq> []" "\<not> sending c" "text_error (trim (newMessage c)) = Some e"
  shows "sendMessage uid (Some f) now c d =
        (Some (Toast_error_message e), c\<lparr>sending := False\<rparr>, d)"
  using assms(1,2) by (simp add: sendMessage_def await_def insert_messages_refused [OF assms(3)])

lemma text_error_examples:
  "text_error [0x68, 0x20, 0x69] = None"
  "text_error [0xD83D, 0xDE00] = None"
  "text_error [0x61, 0, 0x62] = Some Untranslatable_character"
  "text_error [0x61, 0xD83D] = Some Invalid_text_representation"
  "text_error [0xDE00, 0x61] = Some Invalid_text_representation"
  by (simp_all add: high_surrogate_def low_surrogate_def)

text \<open>
  C8, as the code has it. When the typed text is blank after trimming, \<open>sendMessage\<close>
  returns at once: no row, no toast, state untouched. When it is not blank, a friend is
  selected and no send is in flight, then: if the trimmed text is one the \<^verbatim>\<open>TEXT\<close> column
  takes and both profiles exist, it inserts exactly one row and clears the input, and
  nothing of the new row is returned; if the trimmed text holds U+0000 or a surrogate
  without its partner, no row is inserted and the database's error is shown.
\<close>

theorem sendMessage_blank_or_not:
  "(trim (newMessage c) = [] \<longrightarrow> sendMessage uid friend now c d = (None, c, d)) \<and>
   (trim (newMessage c) \<noteq> [] \<and> \<not> sending c \<and> text_error (trim (newMessage c)) = None \<and>
    uid \<in> set (profile_ids d) \<and> p_id f \<in> set (profile_ids d) \<longrightarrow>
      sendMessage uid (Some f) now c d =
        (None, c\<lparr>newMessage := [], sending := False\<rparr>,
         d\<lparr>messages := messages d @
              [\<lparr>m_id = gen_random_uuid (map m_id (messages d)), m_sender_id = uid,
                m_receiver_id = p_id f, m_content = trim (newMessage c), m_read = False,
                m_created_at = now\<rparr>]\<rparr>)) \<and>
   (trim (newMessage c) \<noteq> [] \<and> \<not> sending c \<and> text_error (trim (newMessage c)) = Some e \<longrightarrow>
      sendMessage uid (Some f) now c d =
        (Some (Toast_error_message e), c\<lparr>sending := False\<rparr>, d))"
  using sendMessage_blank [of c uid friend now d] sendMessage_sent [of c uid d f now]
    sendMessage_refused [of c e uid f now d]
  by blast

lemma trim_blank: "trim (newMessage chat_blank) = []"
  by (simp add: trim_def chat_blank_def js_whitespace_def)

lemma trim_padded: "trim (newMessage chat_padded) = [0x68, 0x20, 0x69]"
  by (simp add: trim_def chat_padded_def js_whitespace_def)

lemma trim_nul: "trim (newMessage chat_nul) = [0x61, 0, 0x62]"
  by (simp add: trim_def chat_nul_def js_whitespace_def)

theorem sendMessage_blank_or_not_witness:
  "trim (newMessage chat_blank) = [] \<and>
   sendMessage 1 (Some bob) 50 chat_blank store_chat = (None, chat_blank, store_chat) \<and>
   trim (newMessage chat_padded) \<noteq> [] \<and> \<not> sending chat_padded \<and>
   text_error (trim (newMessage chat_padded)) = None \<and>
   1 \<in> set (profile_ids store_chat) \<and> p_id bob \<in> set (profile_ids store_chat) \<and>
   messages (snd (snd (sendMessage 1 (Some bob) 50 chat_padded store_chat))) =
     [message_41, message_42, message_43,
      \<lparr>m_id = 44, m_sender_id = 1, m_receiver_id = 2, m_content = [0x68, 0x20, 0x69],
        m_read = False, m_created_at = 50\<rparr>] \<and>
   trim (newMessage chat_nul) \<noteq> [] \<and> \<not> sending chat_nul \<and>
   text_error (trim (newMessage chat_nul)) = Some Untranslatable_character \<and>
   sendMessage 1 (Some bob) 50 chat_nul store_chat =
     (Some (Toast_error_message Untranslatable_character), chat_nul, store_chat)"
proof -
  have p: "1 \<in> set (profile_ids store_chat)" "p_id bob \<in> set (profile_ids store_chat)"
    by (simp_all add: profile_ids_def store_chat_def alice_def bob_def)
  have n: "trim (newMessage chat_padded) \<noteq> []" "\<not> sending chat_padded"
    by (simp_all add: trim_padded) (simp add: chat_padded_def)
  have t: "text_error (trim (newMessage chat_padded)) = None"
    by (simp only: trim_padded text_error_examples)
  have g: "gen_random_uuid [m_id message_41, m_id message_42, m_id message_43] = 44"
    by (simp add: gen_random_uuid_def message_41_def message_42_def message_43_def)
  have b: "p_id bob = 2" by (simp add: bob_def)
  have ms: "messages store_chat = [message_41, message_42, message_43]" by (simp add: store_chat_def)
  have z: "trim (newMessage chat_nul) \<noteq> []" "\<not> sending chat_nul"
    by (simp_all add: trim_nul) (simp add: chat_nul_def)
  have u: "text_error (trim (newMessage chat_nul)) = Some Untranslatable_character"
    by (simp only: trim_nul text_error_examples)
  have k: "chat_nul\<lparr>sending := False\<rparr> = chat_nul" by (simp add: chat_nul_def)
  from sendMessage_blank_or_not [of chat_blank 1 "Some bob" 50 store_chat bob] trim_blank
  have one: "sendMessage 1 (Some bob) 50 chat_blank store_chat = (None, chat_blank, store_chat)"
    by simp
  from sendMessage_blank_or_not [of chat_padded 1 "Some bob" 50 store_chat bob] n t p
  have two: "messages (snd (snd (sendMessage 1 (Some bob) 50 chat_padded store_chat))) =
     [message_41, message_42, message_43,
      \<lparr>m_id = 44, m_sender_id = 1, m_receiver_id = 2, m_content = [0x68, 0x20, 0x69],
        m_read = False, m_created_at = 50\<rparr>]"
    by (simp add: g b ms trim_padded)
  from sendMessage_blank_or_not [of chat_nul 1 "Some bob" 50 store_chat bob Untranslatable_character]
    z u
  have three: "sendMessage 1 (Some bob) 50 chat_nul store_chat =
     (Some (Toast_error_message Untranslatable_character), chat_nul, store_chat)"
    by (simp add: k)
  from trim_blank one n t p two z u three show ?thesis by blast
qed

text \<open>Three whitespace characters: the call ends without any report.\<close>

theorem sendMessage_blank_counterexample:
  "sendMessage 1 (Some bob) 50 chat_blank store_chat = (None, chat_blank, store_chat)"
  by (simp add: sendMessage_def trim_def chat_blank_def js_whitespace_def)

lemma trim_decomposition:
  "s = takeWhile js_whitespace s @ trim s @ rev (takeWhile js_whitespace (rev (dropWhile js_whitespace s)))"
proof -
  let ?rest = "dropWhile js_whitespace s"
  have "rev (takeWhile js_whitespace (rev ?rest) @ dropWhile js_whitespace (rev ?rest)) = ?rest"
    by (simp only: takeWhile_dropWhile_id rev_rev_ident)
  then have "?rest = trim s @ rev (takeWhile js_whitespace (rev ?rest))"
    by (simp only: rev_append trim_def)
  moreover have "s = takeWhile js_whitespace s @ ?rest" by simp
  ultimately show ?thesis by simp
qed

lemma trim_ends:
  assumes "trim s \<noteq> []"
  shows "\<not> js_whitespace (hd (trim s))" "\<not> js_whitespace (last (trim s))"
proof -
  let ?rest = "dropWhile js_whitespace s"
  let ?kept = "dropWhile js_whitespace (rev ?rest)"
  have kept: "?kept \<noteq> []" using assms by (simp add: trim_def)
  have rest: "?rest \<noteq> []"
  proof
    assume "?rest = []"
    then have "?kept = []" by (simp only: rev.simps dropWhile.simps)
    with kept show False by (rule notE)
  qed
  have "last (trim s) = hd ?kept" using kept by (simp add: trim_def last_rev)
  moreover have "\<not> js_whitespace (hd ?kept)" using kept by (rule hd_dropWhile)
  ultimately show "\<not> js_whitespace (last (trim s))" by simp
  have "hd (trim s) = last ?kept" using kept by (simp add: trim_def hd_rev)
  also have "\<dots> = last (rev ?rest)"
  proof -
    have "rev ?rest = takeWhile js_whitespace (rev ?rest) @ ?kept" by simp
    then have "last (rev ?rest) = last (takeWhile js_whitespace (rev ?rest) @ ?kept)" by simp
    also have "\<dots> = last ?kept" using kept by (rule last_appendR)
    finally show ?thesis by simp
  qed
  also have "\<dots> = hd ?rest" using rest by (simp add: last_rev)
  finally have "hd (trim s) = hd ?rest" .
  moreover have "\<not> js_whitespace (hd ?rest)" using rest by (rule hd_dropWhile)
  ultimately show "\<not> js_whitespace (hd (trim s))" by simp
qed

text \<open>
  C10. Whenever \<open>sendMessage\<close> stores something, it is one new row whose content is the
  trimmed input: the typed text is that content between a run of whitespace before and a
  run of whitespace after, and the content itself neither starts nor ends with whitespace.
\<close>

theorem stored_content_is_trimmed:
  assumes "sendMessage uid friend now c d = (t, c', d')" "d' \<noteq> d"
  shows "\<exists>row pre suf.
           messages d' = messages d @ [row] \<and> m_content row = trim (newMessage c) \<and>
           m_sender_id row = uid \<and> map p_id (case friend of None \<Rightarrow> [] | Some f \<Rightarrow> [f]) = [m_receiver_id row] \<and>
           newMessage c = pre @ m_content row @ suf \<and>
           list_all js_whitespace pre \<and> list_all js_whitespace suf \<and>
           m_content row \<noteq> [] \<and>
           \<not> js_whitespace (hd (m_content row)) \<and> \<not> js_whitespace (last (m_content row))"
proof (cases friend)
  case None
  with assms show ?thesis by (simp add: sendMessage_def)
next
  case (Some f)
  let ?row = "\<lparr>m_id = gen_random_uuid (map m_id (messages d)), m_sender_id = uid,
                 m_receiver_id = p_id f, m_content = trim (newMessage c), m_read = False,
                 m_created_at = now\<rparr>"
  let ?pre = "takeWhile js_whitespace (newMessage c)"
  let ?suf = "rev (takeWhile js_whitespace (rev (dropWhile js_whitespace (newMessage c))))"
  have go: "\<not> (trim (newMessage c) = [] \<or> sending c)"
    using assms Some by (auto simp: sendMessage_def)
  then have nonblank: "trim (newMessage c) \<noteq> []" by simp
  have stored: "d' = d\<lparr>messages := messages d @ [?row]\<rparr>"
    using insert_messages_cases [of uid now "p_id f" "trim (newMessage c)" d] assms Some go
    by (auto simp: sendMessage_def await_def)
  have ws: "list_all js_whitespace ?pre" "list_all js_whitespace ?suf"
    by (auto simp: list_all_iff dest: set_takeWhileD)
  have f1: "messages d' = messages d @ [?row]" using stored by simp
  have f2: "m_content ?row = trim (newMessage c)" "m_sender_id ?row = uid"
    "map p_id (case friend of None \<Rightarrow> [] | Some f \<Rightarrow> [f]) = [m_receiver_id ?row]"
    using Some by simp_all
  have f3: "newMessage c = ?pre @ m_content ?row @ ?suf"
    using trim_decomposition [of "newMessage c"] by simp
  have f4: "m_content ?row \<noteq> []" "\<not> js_whitespace (hd (m_content ?row))"
    "\<not> js_whitespace (last (m_content ?row))"
    using nonblank trim_ends [OF nonblank] by simp_all
  show ?thesis
    by (rule exI [of _ ?row], rule exI [of _ ?pre], rule exI [of _ ?suf])
       (intro conjI f1 f2 f3 f4 ws)
qed

theorem stored_content_is_trimmed_witness:
  "snd (snd (sendMessage 1 (Some bob) 50 chat_padded store_chat)) \<noteq> store_chat \<and>
   (\<exists>row pre suf.
      messages (snd (snd (sendMessage 1 (Some bob) 50 chat_padded store_chat))) =
        messages store_chat @ [row] \<and>
      m_content row = [0x68, 0x20, 0x69] \<and>
      newMessage chat_padded = pre @ m_content row @ suf \<and>
      list_all js_whitespace pre \<and> list_all js_whitespace suf)"
proof -
  obtain t c' d' where run: "sendMessage 1 (Some bob) 50 chat_padded store_chat = (t, c', d')"
    by (cases "sendMessage 1 (Some bob) 50 chat_padded store_chat")
  have p: "1 \<in> set (profile_ids store_chat)" "p_id bob \<in> set (profile_ids store_chat)"
    by (simp_all add: profile_ids_def store_chat_def alice_def bob_def)
  have n: "trim (newMessage chat_padded) \<noteq> []" "\<not> sending chat_padded"
    by (simp_all add: trim_padded) (simp add: chat_padded_def)
  have t: "text_error (trim (newMessage chat_padded)) = None"
    by (simp only: trim_padded text_error_examples)
  have "length (messages d') = Suc (length (messages store_chat))"
    using run unfolding sendMessage_sent [OF n t p] by auto
  then have ne: "d' \<noteq> store_chat" by auto
  from stored_content_is_trimmed [OF run ne]
  obtain row pre suf where r:
    "messages d' = messages store_chat @ [row]" "m_content row = trim (newMessage chat_padded)"
    "newMessage chat_padded = pre @ m_content row @ suf"
    "list_all js_whitespace pre" "list_all js_whitespace suf"
    by blast
  from r(2) have "m_content row = [0x68, 0x20, 0x69]" by (simp only: trim_padded)
  with r(1,3,4,5) have "\<exists>row pre suf.
      messages d' = messages store_chat @ [row] \<and> m_content row = [0x68, 0x20, 0x69] \<and>
      newMessage chat_padded = pre @ m_content row @ suf \<and>
      list_all js_whitespace pre \<and> list_all js_whitespace suf"
    by (intro exI conjI)
  with ne show ?thesis unfolding run by simp
qed

subsection \<open>The read flag\<close>

lemma read_rises_refl: "read_rises m m"
  by (simp add: read_rises_def)

lemma read_rises_by_refl: "read_rises_by uid m m"
  by (simp add: read_rises_by_def read_rises_refl)

lemma read_rises_by_mark: "m_receiver_id m = uid \<Longrightarrow> read_rises_by uid m (m\<lparr>m_read := True\<rparr>)"
  by (simp add: read_rises_by_def read_rises_def)

lemma read_rises_by_imp: "read_rises_by uid m m' \<Longrightarrow> read_rises m m'"
  by (simp add: read_rises_by_def)

lemma read_rises_trans:
  assumes "read_rises m1 m2" "read_rises m2 m3"
  shows "read_rises m1 m3"
proof -
  have a: "m2\<lparr>m_read := m_read m1\<rparr> = m1" "m_read m1 \<longrightarrow> m_read m2"
    using assms(1) by (simp_all add: read_rises_def)
  have b: "m3\<lparr>m_read := m_read m2\<rparr> = m2" "m_read m2 \<longrightarrow> m_read m3"
    using assms(2) by (simp_all add: read_rises_def)
  have "m3\<lparr>m_read := m_read m1\<rparr> = (m3\<lparr>m_read := m_read m2\<rparr>)\<lparr>m_read := m_read m1\<rparr>"
    by simp
  also have "\<dots> = m2\<lparr>m_read := m_read m1\<rparr>" by (simp only: b(1))
  also have "\<dots> = m1" by (rule a(1))
  finally have "m3\<lparr>m_read := m_read m1\<rparr> = m1" .
  moreover have "m_read m1 \<longrightarrow> m_read m3" using a(2) b(2) by blast
  ultimately show ?thesis unfolding read_rises_def by (rule conjI)
qed

lemma rows_step_refl:
  assumes "\<And>m. R m m"
  shows "rows_step R ms ms"
  by (simp add: rows_step_def list_all2_same assms)

lemma rows_step_append:
  assumes "\<And>m. R m m"
  shows "rows_step R ms (ms @ new)"
  by (simp add: rows_step_def list_all2_same assms)

lemma rows_step_map:
  assumes "\<And>m. R m (f m)"
  shows "rows_step R ms (map f ms)"
  by (simp add: rows_step_def list_all2_map2 list_all2_same assms)

lemma rows_step_mono:
  assumes "rows_step R ms ms'" "\<And>m m'. R m m' \<Longrightarrow> S m m'"
  shows "rows_step S ms ms'"
  using assms unfolding rows_step_def by (auto elim: list_all2_mono)

lemma rows_step_trans:
  assumes "rows_step R xs ys" "rows_step R ys zs" "\<And>a b c. R a b \<Longrightarrow> R b c \<Longrightarrow> R a c"
  shows "rows_step R xs zs"
proof -
  from assms(1) have l1: "length xs \<le> length ys" and a1: "list_all2 R xs (take (length xs) ys)"
    by (simp_all add: rows_step_def)
  from assms(2) have l2: "length ys \<le> length zs" and a2: "list_all2 R ys (take (length ys) zs)"
    by (simp_all add: rows_step_def)
  from a2 have "list_all2 R (take (length xs) ys) (take (length xs) (take (length ys) zs))"
    by (rule list_all2_takeI)
  moreover have "take (length xs) (take (length ys) zs) = take (length xs) zs"
    using l1 by (simp add: min_def)
  ultimately have "list_all2 R (take (length xs) ys) (take (length xs) zs)" by simp
  with a1 have "list_all2 R xs (take (length xs) zs)"
    using assms(3) by (rule list_all2_trans [rotated])
  moreover have "length xs \<le> length zs" using l1 l2 by simp
  ultimately show ?thesis by (simp add: rows_step_def)
qed

lemma insert_friendships_messages:
  "insert_friendships_do_nothing now u v d = Inr d' \<Longrightarrow> messages d' = messages d"
  by (auto simp: insert_friendships_do_nothing_def split: if_splits)

lemma create_friendship_messages:
  assumes "create_friendship now new d = Inr d'"
  shows "messages d' = messages d"
proof (cases "fr_status new = Accepted")
  case True
  with assms obtain d1 where
    1: "insert_friendships_do_nothing now (fr_sender_id new) (fr_receiver_id new) d = Inr d1" and
    2: "insert_friendships_do_nothing now (fr_receiver_id new) (fr_sender_id new) d1 = Inr d'"
    by (auto simp: create_friendship_def split: sum.splits)
  from insert_friendships_messages [OF 1] insert_friendships_messages [OF 2]
  show ?thesis by simp
next
  case False
  with assms show ?thesis by (simp add: create_friendship_def)
qed

lemma after_update_triggers_messages:
  "after_update_triggers now rows d = Inr d' \<Longrightarrow> messages d' = messages d"
proof (induction rows arbitrary: d)
  case Nil
  then show ?case by simp
next
  case (Cons row rows)
  obtain old new where row: "row = (old, new)" by (cases row)
  from Cons.prems row obtain d1 where
    1: "on_friend_request_accepted now old new d = Inr d1" and
    2: "after_update_triggers now rows d1 = Inr d'"
    by (auto split: sum.splits)
  from 1 have "messages d1 = messages d"
    by (auto simp: on_friend_request_accepted_def split: if_splits dest: create_friendship_messages)
  with Cons.IH [OF 2] show ?case by simp
qed

lemma update_friend_requests_messages:
  assumes "update_friend_requests uid now st rid d = Inr d'"
  shows "messages d' = messages d"
  using after_update_triggers_messages [OF assms [unfolded update_friend_requests_def Let_def]]
  by simp

lemma acceptRequest_messages: "messages (snd (acceptRequest uid now rid d)) = messages d"
  by (auto simp: acceptRequest_def await_def split: sum.splits
      dest: update_friend_requests_messages)

lemma rejectRequest_messages: "messages (snd (rejectRequest uid now rid d)) = messages d"
  by (auto simp: rejectRequest_def await_def split: sum.splits
      dest: update_friend_requests_messages)

lemma sendFriendRequest_messages:
  "messages (snd (snd (sendFriendRequest uid now s d))) = messages d"
  by (auto simp: sendFriendRequest_def await_def insert_friend_requests_def Let_def
      split: option.splits sum.splits if_splits)

lemma presence_messages:
  "messages (snd (presence_mount uid now d)) = messages d"
  "messages (snd (presence_tick uid pr d)) = messages d"
  "messages (snd (presence_cleanup uid now pr d)) = messages d"
  by (simp_all add: presence_mount_def presence_tick_def presence_cleanup_def updateStatus_def
      await_def unawaited_def update_profiles_def split: option.splits)

lemma update_messages_step:
  "rows_step (read_rises_by uid) (messages d) (messages (update_messages uid True sel d))"
proof -
  have "read_rises_by uid m (if policy_messages_update uid m \<and> sel m then m\<lparr>m_read := True\<rparr> else m)"
    for m
    by (simp add: read_rises_by_refl read_rises_by_mark policy_messages_update_def)
  then show ?thesis
    unfolding update_messages_def by (simp add: rows_step_map)
qed

lemma loadMessages_step:
  "rows_step (read_rises_by uid) (messages d) (messages (snd (loadMessages uid friend c d)))"
  by (simp add: loadMessages_def Let_def await_def update_messages_step
      rows_step_refl read_rises_by_refl)

lemma sendMessage_step:
  "rows_step (read_rises_by uid) (messages d) (messages (snd (snd (sendMessage uid friend now c d))))"
proof -
  have "messages (snd (snd (sendMessage uid friend now c d))) = messages d \<or>
        (\<exists>new. messages (snd (snd (sendMessage uid friend now c d))) = messages d @ new)"
    by (auto simp: sendMessage_def await_def insert_messages_def Let_def
        split: option.splits sum.splits if_splits)
  then show ?thesis
    by (auto simp: rows_step_refl rows_step_append read_rises_by_refl)
qed

lemma perform_step:
  "rows_step (read_rises_by uid) (messages d) (messages (perform uid now op d))"
proof (cases op)
  case (Op_loadMessages friend c)
  then show ?thesis by (simp add: loadMessages_step)
next
  case (Op_sendMessage friend c)
  then show ?thesis by (simp add: sendMessage_step)
next
  case (Op_on_insert p c)
  then show ?thesis
    by (simp add: on_insert_def Let_def unawaited_def rows_step_refl read_rises_by_refl)
qed (simp_all add: presence_messages acceptRequest_messages rejectRequest_messages
       sendFriendRequest_messages rows_step_refl read_rises_by_refl)

text \<open>
  C6. Along every run of operations of the core, by whatever users: each step leaves every
  existing message row as it was except possibly for a read flag that goes from false to
  true, and it does so only on rows whose receiver is the user performing the step. From the
  start of a run to its end no read flag has fallen and no other field has changed.
\<close>

theorem read_flag_only_rises:
  "run_obeys ops d \<and> rows_step read_rises (messages d) (messages (run ops d))"
proof (induction ops arbitrary: d)
  case Nil
  show ?case by (simp add: rows_step_refl read_rises_refl)
next
  case (Cons step ops)
  obtain uid now op where step: "step = (uid, now, op)" by (cases step)
  let ?d1 = "perform uid now op d"
  have one: "rows_step (read_rises_by uid) (messages d) (messages ?d1)" by (rule perform_step)
  then have "rows_step read_rises (messages d) (messages ?d1)"
    by (rule rows_step_mono) (rule read_rises_by_imp)
  moreover have "rows_step read_rises (messages ?d1) (messages (run ops ?d1))"
    using Cons.IH [of ?d1] by (rule conjunct2)
  ultimately have "rows_step read_rises (messages d) (messages (run ops ?d1))"
    by (rule rows_step_trans) (rule read_rises_trans)
  moreover have "run_obeys ops ?d1" using Cons.IH [of ?d1] by (rule conjunct1)
  ultimately show ?case using one by (simp add: step)
qed

theorem read_flag_only_rises_witness:
  "run_obeys two_loads store_chat \<and>
   rows_step read_rises (messages store_chat) (messages (run two_loads store_chat)) \<and>
   map m_read (messages store_chat) = [False, False, False] \<and>
   map m_read (messages (run two_loads store_chat)) = [True, True, False]"
proof -
  have "map m_read (messages store_chat) = [False, False, False]"
    by (simp add: store_chat_def message_41_def message_42_def message_43_def)
  moreover have "map m_read (messages (run two_loads store_chat)) = [True, True, False]"
    by code_simp
  ultimately show ?thesis using read_flag_only_rises [of two_loads store_chat] by simp
qed

subsection \<open>Presence\<close>

lemma updateStatus_profiles:
  "updateStatus uid now d =
   d\<lparr>profiles := map (\<lambda>p. if p_id p = uid
                              then p\<lparr>p_status := ''online'', p_last_seen := now, p_updated_at := now\<rparr>
                              else p) (profiles d)\<rparr>"
proof -
  have "(\<lambda>p. if policy_profiles_update uid p \<and> p_id p = uid
             then p\<lparr>p_status := ''online'', p_last_seen := now, p_updated_at := now\<rparr> else p) =
        (\<lambda>p. if p_id p = uid
             then p\<lparr>p_status := ''online'', p_last_seen := now, p_updated_at := now\<rparr> else p)"
    by (rule ext) (auto simp: policy_profiles_update_def)
  then show ?thesis by (simp add: updateStatus_def await_def update_profiles_def)
qed

lemma updateStatus_twice:
  "updateStatus uid t2 (updateStatus uid t1 d) = updateStatus uid t2 d"
proof -
  have "(\<lambda>p. if p_id p = uid
            then p\<lparr>p_status := ''online'', p_last_seen := t2, p_updated_at := t2\<rparr> else p) \<circ>
        (\<lambda>p. if p_id p = uid
            then p\<lparr>p_status := ''online'', p_last_seen := t1, p_updated_at := t1\<rparr> else p) =
        (\<lambda>p. if p_id p = uid
            then p\<lparr>p_status := ''online'', p_last_seen := t2, p_updated_at := t2\<rparr> else p)"
    by (rule ext) simp
  then show ?thesis by (simp add: updateStatus_profiles)
qed

lemma heartbeat:
  "presence_ticks n uid (presence_mount uid t0 d) =
   (\<lparr>interval = Some (t0 + 30000 * Suc n)\<rparr>, updateStatus uid (t0 + 30000 * n) d)"
proof (induction n)
  case 0
  show ?case by (simp add: presence_mount_def)
next
  case (Suc n)
  show ?case
    by (simp add: Suc presence_tick_def updateStatus_twice)
qed

lemma heartbeat_own_account:
  "p \<in> set (profiles d) \<Longrightarrow> p_id p \<noteq> uid \<Longrightarrow> p \<in> set (profiles (updateStatus uid now d))"
proof -
  assume p: "p \<in> set (profiles d)" and other: "p_id p \<noteq> uid"
  let ?f = "\<lambda>p. if p_id p = uid
                then p\<lparr>p_status := ''online'', p_last_seen := now, p_updated_at := now\<rparr> else p"
  from p have "?f p \<in> ?f ` set (profiles d)" by (rule imageI)
  moreover have "?f p = p" using other by simp
  ultimately have "p \<in> ?f ` set (profiles d)" by (simp only:)
  then show ?thesis by (simp add: updateStatus_profiles)
qed

lemma cleanup_sends_nothing: "snd (presence_cleanup uid now pr d) = d"
  by (simp add: presence_cleanup_def unawaited_def)

text \<open>
  C9 at a concrete session. Alice's client mounts at time 5000 and its timer fires three
  times: her row reads online with \<open>last_seen = 95000\<close>, the other rows are untouched.
  The cleanup at time 100000 clears the timer, and the store is as before: her row still
  reads online.
\<close>

theorem teardown_leaves_online:
  "(case presence_ticks 3 1 (presence_mount 1 5000 store_fresh) of (pr, d) \<Rightarrow>
      interval pr = Some 125000 \<and>
      map p_status (profiles d) = [''online'', ''offline'', ''offline''] \<and>
      map p_last_seen (profiles d) = [95000, 0, 0] \<and>
      (case presence_cleanup 1 100000 pr d of (pr', d') \<Rightarrow>
         interval pr' = None \<and>
         map p_status (profiles d') = [''online'', ''offline'', ''offline''] \<and>
         map p_last_seen (profiles d') = [95000, 0, 0]))"
  by (simp add: numeral_3_eq_3 presence_mount_def presence_tick_def presence_cleanup_def
      unawaited_def updateStatus_def await_def update_profiles_def policy_profiles_update_def
      store_fresh_def alice_def bob_def carol_def)

end
